theory Spec2Isabelle
  imports Complex_Main "HOL-Library.AList"
begin

section \<open>Python strings\<close>

text \<open>
  The mapping engine of \<^verbatim>\<open>backend/routes/mouse_listener.py\<close> works on Python
  \<^verbatim>\<open>str\<close> values. A Python string is modelled as a \<^typ>\<open>string\<close> whose characters
  are the code points 0 to 255; \<^verbatim>\<open>str.lower\<close>, \<^verbatim>\<open>str.strip\<close>, \<^verbatim>\<open>str.split\<close>
  and \<^verbatim>\<open>int\<close> are written out for that range.
\<close>

definition code_point :: "char \<Rightarrow> nat" where
  "code_point c = of_char c"

definition is_space :: "char \<Rightarrow> bool" where
  \<comment> \<open>\<^verbatim>\<open>str.isspace\<close> on one character: TAB..CR, FS..US, SPACE, NEL, NBSP.\<close>
  "is_space c = (let n = code_point c in
      (9 \<le> n \<and> n \<le> 13) \<or> (28 \<le> n \<and> n \<le> 32) \<or> n = 133 \<or> n = 160)"

definition lower_char :: "char \<Rightarrow> char" where
  "lower_char c = (let n = code_point c in
      if (65 \<le> n \<and> n \<le> 90) \<or> (192 \<le> n \<and> n \<le> 222 \<and> n \<noteq> 215)
      then char_of (n + 32) else c)"

definition lower :: "string \<Rightarrow> string" where
  "lower s = map lower_char s"

definition strip :: "string \<Rightarrow> string" where
  "strip s = rev (dropWhile is_space (rev (dropWhile is_space s)))"

fun split_acc :: "char \<Rightarrow> string \<Rightarrow> string \<Rightarrow> string list" where
  "split_acc sep cur [] = [cur]"
| "split_acc sep cur (c # cs) =
     (if c = sep then cur # split_acc sep [] cs else split_acc sep (cur @ [c]) cs)"

definition split :: "string \<Rightarrow> char \<Rightarrow> string list" where
  \<comment> \<open>\<^verbatim>\<open>s.split(sep)\<close> with a one-character separator\<close>
  "split s sep = split_acc sep [] s"

definition digit_val :: "char \<Rightarrow> nat option" where
  "digit_val c = (let n = code_point c in
      if 48 \<le> n \<and> n \<le> 57 then Some (n - 48) else None)"

fun parse_digits :: "bool \<Rightarrow> nat \<Rightarrow> string \<Rightarrow> nat option" where
  \<comment> \<open>decimal digits, single underscores allowed between two digits\<close>
  "parse_digits prev acc [] = (if prev then Some acc else None)"
| "parse_digits prev acc (c # cs) =
     (if c = CHR ''_'' then
        (if prev \<and> cs \<noteq> [] then parse_digits False acc cs else None)
      else (case digit_val c of
              Some d \<Rightarrow> parse_digits True (10 * acc + d) cs
            | None \<Rightarrow> None))"

definition MAX_STR_DIGITS :: nat where
  \<comment> \<open>CPython's default limit on the digits of a string that \<^verbatim>\<open>int\<close> converts\<close>
  "MAX_STR_DIGITS = 4300"

definition int_literal :: "string \<Rightarrow> nat option" where
  "int_literal ds =
     (if length (filter (\<lambda>c. c \<noteq> CHR ''_'') ds) > MAX_STR_DIGITS then None
      else parse_digits False 0 ds)"

definition is_int_space :: "char \<Rightarrow> bool" where
  \<comment> \<open>the blanks that \<^verbatim>\<open>int\<close> skips around a literal: TAB..CR, SPACE, NEL, NBSP;
      unlike \<^verbatim>\<open>str.strip\<close> it does not skip FS..US\<close>
  "is_int_space c = (let n = code_point c in
      (9 \<le> n \<and> n \<le> 13) \<or> n = 32 \<or> n = 133 \<or> n = 160)"

definition int_strip :: "string \<Rightarrow> string" where
  "int_strip s = rev (dropWhile is_int_space (rev (dropWhile is_int_space s)))"

definition python_int :: "string \<Rightarrow> int option" where
  \<comment> \<open>\<^verbatim>\<open>int(s)\<close> in base 10; \<open>None\<close> stands for the \<^verbatim>\<open>ValueError\<close>\<close>
  "python_int s =
     (case int_strip s of
        [] \<Rightarrow> None
      | c # cs \<Rightarrow>
          if c = CHR ''-'' then map_option (\<lambda>n. - int n) (int_literal cs)
          else if c = CHR ''+'' then map_option int (int_literal cs)
          else map_option int (int_literal (c # cs)))"

fun digits_of_nat :: "nat \<Rightarrow> string" where
  "digits_of_nat n =
     (if n < 10 then [char_of (48 + n)]
      else digits_of_nat (n div 10) @ [char_of (48 + n mod 10)])"

declare digits_of_nat.simps [simp del]

definition str_of_int :: "int \<Rightarrow> string" where
  \<comment> \<open>\<^verbatim>\<open>str(i)\<close> for an \<^verbatim>\<open>int\<close>\<close>
  "str_of_int i = (if i < 0 then CHR ''-'' # digits_of_nat (nat (- i)) else digits_of_nat (nat i))"

section \<open>Key tokens\<close>

text \<open>
  The members of \<^verbatim>\<open>pynput.keyboard.Key\<close> that the tables name, and a one-character
  string for an ordinary key. The \<^verbatim>\<open>Key\<close> enumeration belongs to the pynput library;
  it has the members \<^verbatim>\<open>f1\<close> to \<^verbatim>\<open>f20\<close>, which is all that \<open>Key_getattr_f\<close> says.
\<close>

datatype key =
    Key_ctrl | Key_cmd | Key_alt | Key_shift
  | Key_enter | Key_tab | Key_space | Key_backspace | Key_delete | Key_esc
  | Key_up | Key_down | Key_left | Key_right | Key_home | Key_end
  | Key_page_up | Key_page_down
  | Key_f nat
  | KeyChar char

definition modifier_map :: "string \<rightharpoonup> key" where
  "modifier_map = map_of
     [(''ctrl'', Key_ctrl), (''cmd'', Key_cmd), (''alt'', Key_alt),
      (''shift'', Key_shift), (''win'', Key_cmd)]"

definition special_keys :: "string \<rightharpoonup> key" where
  "special_keys = map_of
     [(''enter'', Key_enter), (''tab'', Key_tab), (''space'', Key_space),
      (''backspace'', Key_backspace), (''delete'', Key_delete),
      (''escape'', Key_esc), (''esc'', Key_esc),
      (''up'', Key_up), (''down'', Key_down), (''left'', Key_left), (''right'', Key_right),
      (''home'', Key_home), (''end'', Key_end),
      (''pageup'', Key_page_up), (''pagedown'', Key_page_down),
      (''f1'', Key_f 1), (''f2'', Key_f 2), (''f3'', Key_f 3), (''f4'', Key_f 4),
      (''f5'', Key_f 5), (''f6'', Key_f 6), (''f7'', Key_f 7), (''f8'', Key_f 8),
      (''f9'', Key_f 9), (''f10'', Key_f 10), (''f11'', Key_f 11), (''f12'', Key_f 12)]"

definition Key_getattr_f :: "int \<Rightarrow> key option" where
  \<comment> \<open>\<^verbatim>\<open>getattr(Key, f'f{f_num}', None)\<close>\<close>
  "Key_getattr_f n = (if 1 \<le> n \<and> n \<le> 20 then Some (Key_f (nat n)) else None)"

section \<open>Errors\<close>

text \<open>
  Every exception the engine raises itself is a \<^verbatim>\<open>ValueError\<close>; the constructors
  keep the message apart. \<open>ControllerError\<close> stands for whatever the keyboard
  controller raises from \<^verbatim>\<open>press\<close> or \<^verbatim>\<open>release\<close>.
\<close>

datatype error =
    InvalidFunctionKey string
  | InvalidKey string
  | EmptyShortcut
  | ControllerError
  | ExecuteFailed error


section \<open>The shortcut parser\<close>

fun parse_parts :: "string list \<Rightarrow> key list \<Rightarrow> error + key list" where
  "parse_parts [] keys = Inr keys"
| "parse_parts (p # ps) keys =
     (let part = strip p in
      if part = [] then parse_parts ps keys
      else (case modifier_map part of
          Some k \<Rightarrow> parse_parts ps (keys @ [k])
        | None \<Rightarrow>
      (case special_keys part of
          Some k \<Rightarrow> parse_parts ps (keys @ [k])
        | None \<Rightarrow>
      if hd part = CHR ''f'' \<and> length part > 1 then
        (case python_int (tl part) of
            None \<Rightarrow> Inl (InvalidFunctionKey part)
          | Some f_num \<Rightarrow>
              if 1 \<le> f_num \<and> f_num \<le> 20 then
                (case Key_getattr_f f_num of
                    Some f_key \<Rightarrow> parse_parts ps (keys @ [f_key])
                  | None \<Rightarrow> Inl (InvalidFunctionKey part))
              else Inl (InvalidFunctionKey part))
      else if length part = 1 then parse_parts ps (keys @ [KeyChar (hd part)])
      else Inl (InvalidKey part))))"

text \<open>
  A Python \<^verbatim>\<open>dict\<close> is an association list in insertion order: \<open>map_of\<close> looks a
  key up, \<open>AList.update\<close> stores a value (in place for a key that is present, at the
  end for a new one).
\<close>

type_synonym ('k, 'v) dict = "('k \<times> 'v) list"

type_synonym cache = "(string, key list) dict"

definition parse_shortcut :: "string \<Rightarrow> cache \<Rightarrow> (error + key list) \<times> cache" where
  \<comment> \<open>\<^verbatim>\<open>_parse_shortcut\<close>; the second component is \<^verbatim>\<open>_shortcut_cache\<close> afterwards\<close>
  "parse_shortcut shortcut c =
     (case map_of c shortcut of
        Some keys \<Rightarrow> (Inr keys, c)
      | None \<Rightarrow>
          (case parse_parts (split (lower shortcut) (CHR ''+'')) [] of
             Inl e \<Rightarrow> (Inl e, c)
           | Inr keys \<Rightarrow>
               if keys = [] then (Inl EmptyShortcut, c)
               else (Inr keys, AList.update shortcut keys c)))"

section \<open>Engine state\<close>

text \<open>
  The module's globals, together with what the engine does to the outside: the calls it
  has issued to the keyboard controller, the entries it has written to the log, the
  listener threads it has spawned and the \<^verbatim>\<open>threading.Timer\<close> objects that are
  started and have neither fired nor been cancelled. Time stamps are the values of
  \<^verbatim>\<open>time.time()\<close>, taken as rational numbers of seconds.
\<close>

datatype kbd_call = Press key | Release key

record seq_mapping =
  sequence :: "string list"
  action :: string
  name :: string

record button_record =
  \<comment> \<open>one record of the configuration store: \<^verbatim>\<open>btn.get('action')\<close> and so on;
      \<open>btn_sequence\<close> is \<open>None\<close> when the record has no list under \<^verbatim>\<open>'sequence'\<close>\<close>
  btn_action :: "string option"
  btn_sequence :: "string list option"
  btn_keyType :: "string option"
  btn_name :: "string option"

datatype log_entry =
    LoadedButtons nat "(string, string) dict"
  | LoadedSequences nat "string list list"
  | LoadFailed error
  | ExecStart string
  | ExecSuccess string
  | ExecFailure error
  | SingleExecuted string string
  | SingleFailed error
  | SequenceExecuted "string list" string
  | SequenceFailed error
  | SingleDetected string string

record engine =
  is_listening :: bool
  listener_threads :: nat
  button_mappings :: "(string, string) dict"
  sequence_mappings :: "seq_mapping list"
  key_history :: "(string \<times> rat) list"
  pending_single_key :: "(string \<times> string \<times> rat) option"
  pending_timer :: "nat option"
  live_timers :: "nat list"
  next_timer :: nat
  shortcut_cache :: cache
  keyboard :: "kbd_call list"
  log :: "log_entry list"

definition SEQUENCE_TIMEOUT :: rat where
  "SEQUENCE_TIMEOUT = 1 / 2"

definition SINGLE_KEY_DELAY :: rat where
  "SINGLE_KEY_DELAY = 3 / 10"

definition initial :: engine where
  "initial = \<lparr> is_listening = False, listener_threads = 0, button_mappings = [],
      sequence_mappings = [], key_history = [], pending_single_key = None,
      pending_timer = None, live_timers = [], next_timer = 0, shortcut_cache = [],
      keyboard = [], log = [] \<rparr>"

definition info :: "log_entry \<Rightarrow> engine \<Rightarrow> engine" where
  "info e st = st\<lparr>log := log st @ [e]\<rparr>"

section \<open>Loading the mapping tables\<close>

fun load_loop ::
  "button_record list \<Rightarrow> (string, string) dict \<times> seq_mapping list
     \<Rightarrow> (string, string) dict \<times> seq_mapping list" where
  "load_loop [] tabs = tabs"
| "load_loop (btn # btns) (bm, sm) =
     (case btn_action btn of
        None \<Rightarrow> load_loop btns (bm, sm)
      | Some act \<Rightarrow>
          if act = [] then load_loop btns (bm, sm)
          else (case btn_sequence btn of
              Some (k # ks) \<Rightarrow>
                load_loop btns (bm, sm @ [\<lparr>sequence = k # ks, action = act,
                   name = (case btn_name btn of Some n \<Rightarrow> n | None \<Rightarrow> [])\<rparr>])
            | _ \<Rightarrow>
                (case btn_keyType btn of
                   None \<Rightarrow> load_loop btns (bm, sm)
                 | Some key_type \<Rightarrow>
                     if key_type = [] then load_loop btns (bm, sm)
                     else load_loop btns (AList.update key_type act bm, sm))))"

definition sort_by_length_desc :: "seq_mapping list \<Rightarrow> seq_mapping list" where
  \<comment> \<open>\<^verbatim>\<open>list.sort(key=lambda x: len(x['sequence']), reverse=True)\<close>: stable, and
      \<^verbatim>\<open>reverse=True\<close> keeps the original order of equal keys\<close>
  "sort_by_length_desc sm = sort_key (\<lambda>m. - int (length (sequence m))) sm"

definition load_mappings :: "error + button_record list \<Rightarrow> engine \<Rightarrow> engine" where
  \<comment> \<open>the first argument is what \<^verbatim>\<open>load_buttons()\<close> of the configuration store does:
      it raises or returns the records\<close>
  "load_mappings loaded st =
     (case loaded of
        Inl e \<Rightarrow>
          info (LoadFailed e) (st\<lparr>button_mappings := [], sequence_mappings := []\<rparr>)
      | Inr buttons \<Rightarrow>
          (case load_loop buttons ([], []) of (bm, sm) \<Rightarrow>
             let sm' = sort_by_length_desc sm in
             info (LoadedSequences (length sm') (map sequence sm'))
               (info (LoadedButtons (length bm) bm)
                  (st\<lparr>button_mappings := bm, sequence_mappings := sm'\<rparr>))))"

section \<open>Executing a shortcut\<close>

text \<open>
  The keyboard controller is outside the engine; \<open>raises\<close> says which of its calls
  raise. A call is recorded when it is issued, also when it raises.
\<close>

fun press_all :: "(kbd_call \<Rightarrow> bool) \<Rightarrow> key list \<Rightarrow> kbd_call list \<Rightarrow> bool \<times> kbd_call list" where
  "press_all raises [] tr = (True, tr)"
| "press_all raises (k # ks) tr =
     (if raises (Press k) then (False, tr @ [Press k])
      else press_all raises ks (tr @ [Press k]))"

fun release_all :: "(kbd_call \<Rightarrow> bool) \<Rightarrow> key list \<Rightarrow> kbd_call list \<Rightarrow> bool \<times> kbd_call list" where
  "release_all raises [] tr = (True, tr)"
| "release_all raises (k # ks) tr =
     (if raises (Release k) then (False, tr @ [Release k])
      else release_all raises ks (tr @ [Release k]))"

definition execute_shortcut_fast ::
  "(kbd_call \<Rightarrow> bool) \<Rightarrow> string \<Rightarrow> engine \<Rightarrow> bool \<times> engine" where
  "execute_shortcut_fast raises shortcut st =
     (case parse_shortcut shortcut (shortcut_cache st) of
        (Inl e, c) \<Rightarrow> (False, st\<lparr>shortcut_cache := c\<rparr>)
      | (Inr keys, c) \<Rightarrow>
          let st1 = st\<lparr>shortcut_cache := c\<rparr> in
          (case press_all raises keys (keyboard st1) of
             (False, tr) \<Rightarrow> (False, st1\<lparr>keyboard := tr\<rparr>)
           | (True, tr) \<Rightarrow>
               (case release_all raises (rev keys) tr of
                  (False, tr') \<Rightarrow> (False, st1\<lparr>keyboard := tr'\<rparr>)
                | (True, tr') \<Rightarrow> (True, st1\<lparr>keyboard := tr'\<rparr>))))"

definition execute_shortcut ::
  "(kbd_call \<Rightarrow> bool) \<Rightarrow> string \<Rightarrow> engine \<Rightarrow> (error + bool) \<times> engine" where
  "execute_shortcut raises shortcut st =
     (case parse_shortcut shortcut (shortcut_cache st) of
        (Inl e, c) \<Rightarrow>
          (Inl (ExecuteFailed e), info (ExecFailure e) (st\<lparr>shortcut_cache := c\<rparr>))
      | (Inr keys, c) \<Rightarrow>
          let st1 = info (ExecStart shortcut) (st\<lparr>shortcut_cache := c\<rparr>) in
          (case press_all raises keys (keyboard st1) of
             (False, tr) \<Rightarrow>
               (Inl (ExecuteFailed ControllerError),
                info (ExecFailure ControllerError) (st1\<lparr>keyboard := tr\<rparr>))
           | (True, tr) \<Rightarrow>
               (case release_all raises (rev keys) tr of
                  (False, tr') \<Rightarrow>
                    (Inl (ExecuteFailed ControllerError),
                     info (ExecFailure ControllerError) (st1\<lparr>keyboard := tr'\<rparr>))
                | (True, tr') \<Rightarrow>
                    (Inr True, info (ExecSuccess shortcut) (st1\<lparr>keyboard := tr'\<rparr>)))))"

section \<open>The sequence matcher\<close>

fun match_loop :: "(string \<times> rat) list \<Rightarrow> nat \<Rightarrow> nat \<Rightarrow> string list \<Rightarrow> bool" where
  \<comment> \<open>the inner \<^verbatim>\<open>for i, seq_key in enumerate(sequence)\<close>; \<open>off\<close> is
      \<^verbatim>\<open>len(recent_history) - len(sequence)\<close>\<close>
  "match_loop recent off i [] = True"
| "match_loop recent off i (seq_key # rest) =
     (if fst (recent ! (off + i)) \<noteq> seq_key then False
      else match_loop recent off (Suc i) rest)"

fun check_loop ::
  "seq_mapping list \<Rightarrow> (string \<times> rat) list \<Rightarrow> seq_mapping option \<times> (string \<times> rat) list" where
  "check_loop [] recent = (None, recent)"
| "check_loop (m # ms) recent =
     (if length (sequence m) > length recent then check_loop ms recent
      else if match_loop recent (length recent - length (sequence m)) 0 (sequence m)
      then (Some m, take (length recent - length (sequence m)) recent)
      else check_loop ms recent)"

definition recent_history :: "(string \<times> rat) list \<Rightarrow> (string \<times> rat) list" where
  \<comment> \<open>\<^verbatim>\<open>history[-20:]\<close>\<close>
  "recent_history history = drop (length history - 20) history"

definition check_sequence_match ::
  "seq_mapping list \<Rightarrow> (string \<times> rat) list \<Rightarrow> seq_mapping option \<times> (string \<times> rat) list" where
  "check_sequence_match seqs history = check_loop seqs (recent_history history)"

section \<open>The pending single key\<close>

definition cancel_pending_single_key :: "engine \<Rightarrow> engine" where
  "cancel_pending_single_key st =
     (let st1 = (case pending_timer st of
                   Some t \<Rightarrow> st\<lparr>live_timers := removeAll t (live_timers st),
                                 pending_timer := None\<rparr>
                 | None \<Rightarrow> st)
      in st1\<lparr>pending_single_key := None\<rparr>)"

definition execute_pending_single_key :: "(kbd_call \<Rightarrow> bool) \<Rightarrow> engine \<Rightarrow> engine" where
  "execute_pending_single_key raises st =
     (case pending_single_key st of
        None \<Rightarrow> st
      | Some (key_type, act, timestamp) \<Rightarrow>
          let st1 = st\<lparr>pending_single_key := None, pending_timer := None\<rparr> in
          (case execute_shortcut raises act st1 of
             (Inr ok, st2) \<Rightarrow> info (SingleExecuted key_type act) st2
           | (Inl e, st2) \<Rightarrow> info (SingleFailed e) st2))"

section \<open>Handling a button event\<close>

fun prune :: "rat \<Rightarrow> (string \<times> rat) list \<Rightarrow> (string \<times> rat) list" where
  \<comment> \<open>\<^verbatim>\<open>while key_history and key_history[0][1] < current_time - SEQUENCE_TIMEOUT:
      key_history.pop(0)\<close>\<close>
  "prune current_time [] = []"
| "prune current_time (e # es) =
     (if snd e < current_time - SEQUENCE_TIMEOUT then prune current_time es else e # es)"

definition record_key :: "string \<Rightarrow> rat \<Rightarrow> (string \<times> rat) list \<Rightarrow> (string \<times> rat) list" where
  "record_key key_type current_time history = prune current_time (history @ [(key_type, current_time)])"

definition button_key :: "int \<Rightarrow> string" where
  \<comment> \<open>\<^verbatim>\<open>f"button_{button_number}"\<close>\<close>
  "button_key button_number = ''button_'' @ str_of_int button_number"

text \<open>
  \<^verbatim>\<open>handle_mouse_button\<close> has no \<^verbatim>\<open>global\<close> statement, so the names
  \<^verbatim>\<open>pending_single_key\<close> and \<^verbatim>\<open>pending_timer\<close> that it assigns are local to the call:
  the timer is started, the module's two globals stay as
  \<^verbatim>\<open>cancel_pending_single_key\<close> left them. \<^verbatim>\<open>key_history\<close> is only mutated in place.
\<close>

definition handle_mouse_button ::
  "(kbd_call \<Rightarrow> bool) \<Rightarrow> int \<Rightarrow> rat \<Rightarrow> engine \<Rightarrow> bool \<times> engine" where
  "handle_mouse_button raises button_number current_time st =
     (let key_type = button_key button_number;
          st1 = st\<lparr>key_history := record_key key_type current_time (key_history st)\<rparr>
      in case check_sequence_match (sequence_mappings st1) (key_history st1) of
           (Some matched_mapping, remaining_history) \<Rightarrow>
             (let st2 = cancel_pending_single_key st1 in
              case execute_shortcut raises (action matched_mapping) st2 of
                (Inr ok, st3) \<Rightarrow>
                  (True, (info (SequenceExecuted (sequence matched_mapping)
                                  (action matched_mapping)) st3)\<lparr>key_history := []\<rparr>)
              | (Inl e, st3) \<Rightarrow> (False, info (SequenceFailed e) st3))
         | (None, remaining_history) \<Rightarrow>
             (case map_of (button_mappings st1) key_type of
                Some act \<Rightarrow>
                  (let st2 = cancel_pending_single_key st1;
                       local_pending_single_key = (key_type, act, current_time);
                       local_pending_timer = next_timer st2;
                       st3 = st2\<lparr>live_timers := live_timers st2 @ [local_pending_timer],
                                 next_timer := Suc (next_timer st2)\<rparr>
                   in (True, info (SingleDetected key_type act) st3))
              | None \<Rightarrow> (False, st1)))"

definition timer_fires :: "(kbd_call \<Rightarrow> bool) \<Rightarrow> nat \<Rightarrow> engine \<Rightarrow> engine" where
  \<comment> \<open>a started timer reaches its delay and calls \<^verbatim>\<open>execute_pending_single_key\<close>\<close>
  "timer_fires raises t st =
     (if t \<in> set (live_timers st)
      then execute_pending_single_key raises (st\<lparr>live_timers := removeAll t (live_timers st)\<rparr>)
      else st)"

section \<open>Listener lifecycle\<close>

datatype message = AlreadyRunning | Started | NotRunning | Stopped

definition start_listener :: "error + button_record list \<Rightarrow> engine \<Rightarrow> (bool \<times> message) \<times> engine" where
  "start_listener loaded st =
     (if is_listening st then ((False, AlreadyRunning), st)
      else
        (let st1 = load_mappings loaded st;
             st2 = st1\<lparr>listener_threads := Suc (listener_threads st1)\<rparr>
         in ((True, Started), st2\<lparr>is_listening := True\<rparr>)))"

definition stop_listener :: "engine \<Rightarrow> (bool \<times> message) \<times> engine" where
  "stop_listener st =
     (if \<not> is_listening st then ((False, NotRunning), st)
      else
        (let st1 = cancel_pending_single_key st;
             st2 = st1\<lparr>key_history := []\<rparr>
         in ((True, Stopped), st2\<lparr>is_listening := False\<rparr>)))"

section \<open>Runs of the engine\<close>

datatype event =
    Button int rat
  | TimerFires nat
  | StartListener "error + button_record list"
  | StopListener
  | Reload "error + button_record list"

fun step :: "(kbd_call \<Rightarrow> bool) \<Rightarrow> engine \<Rightarrow> event \<Rightarrow> engine" where
  "step raises st (Button n t) = snd (handle_mouse_button raises n t st)"
| "step raises st (TimerFires t) = timer_fires raises t st"
| "step raises st (StartListener loaded) = snd (start_listener loaded st)"
| "step raises st StopListener = snd (stop_listener st)"
| "step raises st (Reload loaded) = load_mappings loaded st"

definition run :: "(kbd_call \<Rightarrow> bool) \<Rightarrow> engine \<Rightarrow> event list \<Rightarrow> engine" where
  "run raises st evs = foldl (step raises) st evs"

definition executions :: "engine \<Rightarrow> string list" where
  \<comment> \<open>the shortcuts executed with success, in order\<close>
  "executions st = concat (map (\<lambda>e. case e of ExecSuccess s \<Rightarrow> [s] | _ \<Rightarrow> []) (log st))"

section \<open>Vocabulary of the specification\<close>

definition injects :: "(kbd_call \<Rightarrow> bool) \<Rightarrow> key list \<Rightarrow> bool" where
  \<comment> \<open>the controller raises on no press and no release of these keys\<close>
  "injects raises keys = (\<forall>k\<in>set keys. \<not> raises (Press k) \<and> \<not> raises (Release k))"







definition runs_ok :: "(kbd_call \<Rightarrow> bool) \<Rightarrow> string \<Rightarrow> cache \<Rightarrow> bool" where
  \<comment> \<open>the shortcut parses and the controller raises on none of its keys\<close>
  "runs_ok raises s c =
     (case fst (parse_shortcut s c) of Inr keys \<Rightarrow> injects raises keys | Inl e \<Rightarrow> False)"

definition tail_matches :: "seq_mapping \<Rightarrow> (string \<times> rat) list \<Rightarrow> bool" where
  \<comment> \<open>the candidate's tokens equal, position by position, the keys of the trailing
      slice of the window that has the candidate's length\<close>
  "tail_matches m w =
     (length (sequence m) \<le> length w \<and>
      map fst (drop (length w - length (sequence m)) w) = sequence m)"

definition length_descending :: "seq_mapping list \<Rightarrow> bool" where
  "length_descending seqs =
     sorted_wrt (\<lambda>a b. length (sequence b) \<le> length (sequence a)) seqs"

definition no_raise :: "kbd_call \<Rightarrow> bool" where
  \<comment> \<open>a controller none of whose calls raises\<close>
  "no_raise c = False"

definition key_record :: "string \<Rightarrow> string \<Rightarrow> button_record" where
  \<comment> \<open>the configuration record \<^verbatim>\<open>{keyType, action}\<close>\<close>
  "key_record k a = \<lparr>btn_action = Some a, btn_sequence = None, btn_keyType = Some k,
      btn_name = None\<rparr>"

definition seq_record :: "string list \<Rightarrow> string \<Rightarrow> button_record" where
  \<comment> \<open>the configuration record \<^verbatim>\<open>{sequence, action}\<close>\<close>
  "seq_record ks a = \<lparr>btn_action = Some a, btn_sequence = Some ks, btn_keyType = None,
      btn_name = None\<rparr>"


definition cache_ok :: "cache \<Rightarrow> bool" where
  \<comment> \<open>the cache holds results of the parser only\<close>
  "cache_ok c = list_all (\<lambda>(s, keys). fst (parse_shortcut s []) = Inr keys) c"

section \<open>Basic facts about the operations\<close>

lemma load_mappings_Inl_tables:
  "button_mappings (load_mappings (Inl e) st) = []"
  "sequence_mappings (load_mappings (Inl e) st) = []"
  by (simp_all add: load_mappings_def info_def)

lemma cancel_pending_fields [simp]:
  "pending_single_key (cancel_pending_single_key st) = None"
  "pending_timer (cancel_pending_single_key st) = None"
  "key_history (cancel_pending_single_key st) = key_history st"
  "is_listening (cancel_pending_single_key st) = is_listening st"
  "listener_threads (cancel_pending_single_key st) = listener_threads st"
  "button_mappings (cancel_pending_single_key st) = button_mappings st"
  "sequence_mappings (cancel_pending_single_key st) = sequence_mappings st"
  "shortcut_cache (cancel_pending_single_key st) = shortcut_cache st"
  "keyboard (cancel_pending_single_key st) = keyboard st"
  "log (cancel_pending_single_key st) = log st"
  "next_timer (cancel_pending_single_key st) = next_timer st"
  by (simp_all add: cancel_pending_single_key_def split: option.splits)

lemma cancel_pending_live_timers:
  "live_timers (cancel_pending_single_key st) =
     (case pending_timer st of Some t \<Rightarrow> removeAll t (live_timers st) | None \<Rightarrow> live_timers st)"
  by (simp add: cancel_pending_single_key_def split: option.splits)

subsection \<open>Executor and parser\<close>

lemma press_all_ok:
  "\<forall>k\<in>set ks. \<not> raises (Press k) \<Longrightarrow> press_all raises ks tr = (True, tr @ map Press ks)"
  by (induction ks arbitrary: tr) auto

lemma release_all_ok:
  "\<forall>k\<in>set ks. \<not> raises (Release k) \<Longrightarrow> release_all raises ks tr = (True, tr @ map Release ks)"
  by (induction ks arbitrary: tr) auto

lemma press_all_fst:
  "fst (press_all raises ks tr) = (\<forall>k\<in>set ks. \<not> raises (Press k))"
  by (induction ks arbitrary: tr) auto

lemma release_all_fst:
  "fst (release_all raises ks tr) = (\<forall>k\<in>set ks. \<not> raises (Release k))"
  by (induction ks arbitrary: tr) auto

lemma press_all_issued:
  "\<exists>n. snd (press_all raises ks tr) = tr @ take n (map Press ks)"
proof (induction ks arbitrary: tr)
  case Nil
  show ?case by simp
next
  case (Cons k ks)
  show ?case
  proof (cases "raises (Press k)")
    case True
    have "snd (press_all raises (k # ks) tr) = tr @ take 1 (map Press (k # ks))"
      using True by simp
    then show ?thesis by blast
  next
    case False
    from Cons.IH [of "tr @ [Press k]"] obtain n
      where "snd (press_all raises ks (tr @ [Press k])) = (tr @ [Press k]) @ take n (map Press ks)"
      by blast
    then have "snd (press_all raises (k # ks) tr) = tr @ take (Suc n) (map Press (k # ks))"
      using False by simp
    then show ?thesis by blast
  qed
qed

lemma release_all_issued:
  "\<exists>n. snd (release_all raises ks tr) = tr @ take n (map Release ks)"
proof (induction ks arbitrary: tr)
  case Nil
  show ?case by simp
next
  case (Cons k ks)
  show ?case
  proof (cases "raises (Release k)")
    case True
    have "snd (release_all raises (k # ks) tr) = tr @ take 1 (map Release (k # ks))"
      using True by simp
    then show ?thesis by blast
  next
    case False
    from Cons.IH [of "tr @ [Release k]"] obtain n
      where "snd (release_all raises ks (tr @ [Release k])) = (tr @ [Release k]) @ take n (map Release ks)"
      by blast
    then have "snd (release_all raises (k # ks) tr) = tr @ take (Suc n) (map Release (k # ks))"
      using False by simp
    then show ?thesis by blast
  qed
qed


lemma execute_shortcut_ok:
  assumes "fst (parse_shortcut s (shortcut_cache st)) = Inr keys" and "injects raises keys"
  shows "fst (execute_shortcut raises s st) = Inr True"
    and "keyboard (snd (execute_shortcut raises s st)) = keyboard st @ map Press keys @ map Release (rev keys)"
    and "log (snd (execute_shortcut raises s st)) = log st @ [ExecStart s, ExecSuccess s]"
    and "shortcut_cache (snd (execute_shortcut raises s st)) = snd (parse_shortcut s (shortcut_cache st))"
  using assms
  by (auto simp: execute_shortcut_def injects_def info_def Let_def press_all_ok release_all_ok
        split: prod.splits sum.splits bool.splits)

lemma execute_shortcut_frame:
  "is_listening (snd (execute_shortcut raises s st)) = is_listening st"
  "listener_threads (snd (execute_shortcut raises s st)) = listener_threads st"
  "button_mappings (snd (execute_shortcut raises s st)) = button_mappings st"
  "sequence_mappings (snd (execute_shortcut raises s st)) = sequence_mappings st"
  "key_history (snd (execute_shortcut raises s st)) = key_history st"
  "pending_single_key (snd (execute_shortcut raises s st)) = pending_single_key st"
  "pending_timer (snd (execute_shortcut raises s st)) = pending_timer st"
  "live_timers (snd (execute_shortcut raises s st)) = live_timers st"
  "next_timer (snd (execute_shortcut raises s st)) = next_timer st"
  by (simp_all add: execute_shortcut_def info_def Let_def split: prod.splits sum.splits bool.splits)

lemma execute_shortcut_fails:
  assumes "fst (parse_shortcut s (shortcut_cache st)) = Inl e"
  shows "fst (execute_shortcut raises s st) = Inl (ExecuteFailed e)"
    and "keyboard (snd (execute_shortcut raises s st)) = keyboard st"
  using assms
  by (auto simp: execute_shortcut_def info_def Let_def split: prod.splits sum.splits bool.splits)

lemma parse_parts_skip:
  "strip p = [] \<Longrightarrow> parse_parts (p # ps) keys = parse_parts ps keys"
  by simp







lemma cache_ok_update:
  assumes "cache_ok c" "fst (parse_shortcut s []) = Inr keys"
  shows "cache_ok (AList.update s keys c)"
  using assms
  unfolding cache_ok_def list_all_iff
  by (induction c) auto

lemma parse_shortcut_cache_ok:
  assumes "cache_ok c"
  shows "cache_ok (snd (parse_shortcut s c))"
proof (cases "map_of c s")
  case (Some keys)
  then show ?thesis using assms by (simp add: parse_shortcut_def)
next
  case None
  show ?thesis
  proof (cases "fst (parse_shortcut s [])")
    case (Inl e)
    then show ?thesis using None assms
      by (auto simp: parse_shortcut_def split: sum.splits if_splits)
  next
    case (Inr keys)
    then have "snd (parse_shortcut s c) = AList.update s keys c"
      using None by (auto simp: parse_shortcut_def split: sum.splits if_splits)
    then show ?thesis using cache_ok_update [OF assms Inr] by simp
  qed
qed

subsection \<open>Function keys written in decimal\<close>

















subsection \<open>Matcher and handler\<close>

lemma match_loop_slice:
  "off + i + length rest \<le> length recent \<Longrightarrow>
   match_loop recent off i rest = (map fst (take (length rest) (drop (off + i) recent)) = rest)"
proof (induction rest arbitrary: i)
  case Nil
  show ?case by simp
next
  case (Cons k rest)
  have lt: "off + i < length recent" using Cons.prems by simp
  have split: "drop (off + i) recent = recent ! (off + i) # drop (off + Suc i) recent"
    using lt by (simp add: Cons_nth_drop_Suc)
  have "off + Suc i + length rest \<le> length recent" using Cons.prems by simp
  from Cons.IH [OF this] split show ?case by auto
qed

lemma match_loop_tail:
  "length (sequence m) \<le> length w \<Longrightarrow>
   match_loop w (length w - length (sequence m)) 0 (sequence m) = tail_matches m w"
  using match_loop_slice [of "length w - length (sequence m)" 0 "sequence m" w]
  by (simp add: tail_matches_def)

lemma check_loop_find:
  "check_loop seqs w =
     (case List.find (\<lambda>m. tail_matches m w) seqs of
        None \<Rightarrow> (None, w)
      | Some m \<Rightarrow> (Some m, take (length w - length (sequence m)) w))"
proof (induction seqs)
  case Nil
  show ?case by simp
next
  case (Cons m seqs)
  show ?case
  proof (cases "length (sequence m) \<le> length w")
    case True
    then show ?thesis using Cons match_loop_tail [OF True] by simp
  next
    case False
    then have "\<not> tail_matches m w" by (simp add: tail_matches_def)
    then show ?thesis using Cons False by simp
  qed
qed

lemma find_longest:
  "length_descending seqs \<Longrightarrow> List.find P seqs = Some m \<Longrightarrow> m' \<in> set seqs \<Longrightarrow> P m'
   \<Longrightarrow> length (sequence m') \<le> length (sequence m)"
  unfolding length_descending_def
  by (induction seqs) (auto split: if_splits)

lemma sort_by_length_desc_descending:
  "length_descending (sort_by_length_desc sm)"
proof -
  have "sorted (map (\<lambda>m. - int (length (sequence m))) (sort_by_length_desc sm))"
    unfolding sort_by_length_desc_def by (rule sorted_sort_key)
  then show ?thesis
    unfolding length_descending_def sorted_map by (rule sorted_wrt_mono_rel [rotated]) simp
qed

lemma load_mappings_descending:
  "length_descending (sequence_mappings (load_mappings (Inr buttons) st))"
  by (simp add: load_mappings_def info_def Let_def sort_by_length_desc_descending split: prod.splits)

lemma recent_history_length: "length (recent_history h) \<le> 20"
  by (simp add: recent_history_def)

lemma recent_history_suffix: "h = take (length h - 20) h @ recent_history h"
  by (simp add: recent_history_def)

lemma execute_shortcut_runs_ok:
  "(fst (execute_shortcut raises s st) = Inr True) = runs_ok raises s (shortcut_cache st)"
proof -
  obtain r c where p: "parse_shortcut s (shortcut_cache st) = (r, c)"
    by (cases "parse_shortcut s (shortcut_cache st)")
  show ?thesis
  proof (cases r)
    case (Inl e)
    then show ?thesis using p
      by (simp add: execute_shortcut_def runs_ok_def)
  next
    case (Inr keys)
    obtain b tr where pr: "press_all raises keys (keyboard st) = (b, tr)"
      by (cases "press_all raises keys (keyboard st)")
    obtain b' tr' where rl: "release_all raises (rev keys) tr = (b', tr')"
      by (cases "release_all raises (rev keys) tr")
    have b: "b = (\<forall>k\<in>set keys. \<not> raises (Press k))"
      using press_all_fst [of raises keys "keyboard st"] pr by simp
    have b': "b' = (\<forall>k\<in>set keys. \<not> raises (Release k))"
      using release_all_fst [of raises "rev keys" tr] rl by simp
    have res: "fst (execute_shortcut raises s st)
        = (if b \<and> b' then Inr True else Inl (ExecuteFailed ControllerError))"
      using p Inr pr rl
      by (cases b; cases b') (simp_all add: execute_shortcut_def info_def Let_def)
    have "runs_ok raises s (shortcut_cache st) = (b \<and> b')"
      unfolding b b' using p Inr by (auto simp: runs_ok_def injects_def)
    with res show ?thesis by simp
  qed
qed

lemma execute_shortcut_result:
  "fst (execute_shortcut raises s st) = Inr True \<or>
   (\<exists>e. fst (execute_shortcut raises s st) = Inl (ExecuteFailed e))"
  by (auto simp: execute_shortcut_def info_def Let_def split: prod.splits sum.splits bool.splits)

lemma handle_matched:
  assumes "fst (check_sequence_match (sequence_mappings st)
             (record_key (button_key n) now (key_history st))) = Some m"
  shows "handle_mouse_button raises n now st =
     (case execute_shortcut raises (action m)
             (cancel_pending_single_key
                (st\<lparr>key_history := record_key (button_key n) now (key_history st)\<rparr>)) of
        (Inr ok, st3) \<Rightarrow>
          (True, (info (SequenceExecuted (sequence m) (action m)) st3)\<lparr>key_history := []\<rparr>)
      | (Inl e, st3) \<Rightarrow> (False, info (SequenceFailed e) st3))"
  using assms
  by (cases "check_sequence_match (sequence_mappings st)
             (record_key (button_key n) now (key_history st))")
     (simp add: handle_mouse_button_def Let_def)

lemma handle_unmatched:
  assumes "fst (check_sequence_match (sequence_mappings st)
             (record_key (button_key n) now (key_history st))) = None"
  shows "handle_mouse_button raises n now st =
     (case map_of (button_mappings st) (button_key n) of
        Some act \<Rightarrow>
          (True, info (SingleDetected (button_key n) act)
             ((cancel_pending_single_key
                 (st\<lparr>key_history := record_key (button_key n) now (key_history st)\<rparr>))
              \<lparr>live_timers :=
                  live_timers (cancel_pending_single_key
                    (st\<lparr>key_history := record_key (button_key n) now (key_history st)\<rparr>))
                  @ [next_timer st],
                next_timer := Suc (next_timer st)\<rparr>))
      | None \<Rightarrow> (False, st\<lparr>key_history := record_key (button_key n) now (key_history st)\<rparr>))"
  using assms
  by (cases "check_sequence_match (sequence_mappings st)
             (record_key (button_key n) now (key_history st))")
     (simp add: handle_mouse_button_def Let_def split: option.splits)

lemma handle_matched_outcome:
  assumes "fst (check_sequence_match (sequence_mappings st)
             (record_key (button_key n) now (key_history st))) = Some m"
  shows "(runs_ok raises (action m) (shortcut_cache st) \<longrightarrow>
            fst (handle_mouse_button raises n now st) = True \<and>
            key_history (snd (handle_mouse_button raises n now st)) = []) \<and>
         (\<not> runs_ok raises (action m) (shortcut_cache st) \<longrightarrow>
            fst (handle_mouse_button raises n now st) = False \<and>
            key_history (snd (handle_mouse_button raises n now st))
              = record_key (button_key n) now (key_history st))"
proof -
  let ?st2 = "cancel_pending_single_key
                (st\<lparr>key_history := record_key (button_key n) now (key_history st)\<rparr>)"
  obtain r st3 where ex: "execute_shortcut raises (action m) ?st2 = (r, st3)"
    by (cases "execute_shortcut raises (action m) ?st2")
  have ok: "(r = Inr True) = runs_ok raises (action m) (shortcut_cache st)"
    using execute_shortcut_runs_ok [of raises "action m" ?st2] ex by simp
  have hist: "key_history st3 = record_key (button_key n) now (key_history st)"
    using execute_shortcut_frame(5) [of raises "action m" ?st2] ex by simp
  have shape: "r = Inr True \<or> (\<exists>e. r = Inl e)"
    using execute_shortcut_result [of raises "action m" ?st2] ex by auto
  show ?thesis
    using handle_matched [OF assms, of raises] ex ok hist shape
    by (auto simp: info_def)
qed

subsection \<open>The history window\<close>

lemma prune_suffix: "\<exists>older. h = older @ prune now h"
proof (induction h)
  case Nil
  show ?case by simp
next
  case (Cons e h)
  then obtain older where "h = older @ prune now h" by blast
  then have "snd e < now - SEQUENCE_TIMEOUT \<Longrightarrow> e # h = (e # older) @ prune now (e # h)"
    by simp
  moreover have "\<not> snd e < now - SEQUENCE_TIMEOUT \<Longrightarrow> e # h = [] @ prune now (e # h)"
    by simp
  ultimately show ?case by blast
qed

lemma prune_length: "length (prune now h) \<le> length h"
  by (induction h) auto

lemma prune_fresh:
  "sorted (map snd h) \<Longrightarrow> \<forall>e\<in>set (prune now h). now - SEQUENCE_TIMEOUT \<le> snd e"
  by (induction h) auto

lemma prune_sorted:
  "sorted (map snd h) \<Longrightarrow> sorted (map snd (prune now h))"
  by (induction h) auto

lemma prune_stale_prefix:
  "\<forall>e\<in>set older. snd e < now - SEQUENCE_TIMEOUT \<Longrightarrow> prune now (older @ newer) = prune now newer"
  by (induction older) auto

lemma prune_subset: "set (prune now h) \<subseteq> set h"
  by (induction h) auto

lemma record_key_fresh:
  assumes "sorted (map snd h)" and "\<forall>e\<in>set h. snd e \<le> now"
  shows "\<forall>e\<in>set (record_key k now h). now - SEQUENCE_TIMEOUT \<le> snd e \<and> snd e \<le> now"
proof -
  have s: "sorted (map snd (h @ [(k, now)]))"
    using assms by (auto simp: sorted_append)
  have "\<forall>e\<in>set (h @ [(k, now)]). snd e \<le> now"
    using assms by auto
  then have "\<forall>e\<in>set (record_key k now h). snd e \<le> now"
    using prune_subset [of now "h @ [(k, now)]"] unfolding record_key_def by blast
  then show ?thesis
    using prune_fresh [OF s, of now] unfolding record_key_def by blast
qed

lemma record_key_sorted:
  assumes "sorted (map snd h)" and "\<forall>e\<in>set h. snd e \<le> now"
  shows "sorted (map snd (record_key k now h))"
  unfolding record_key_def
  using assms by (intro prune_sorted) (auto simp: sorted_append)

lemma record_key_gap:
  assumes "sorted (map snd h)" and "\<forall>e\<in>set h. snd e \<le> now"
    and "h @ [(k, now)] = older @ newer" and "older \<noteq> []" and "newer \<noteq> []"
    and "snd (last older) < snd (hd newer) - SEQUENCE_TIMEOUT"
  shows "length (record_key k now h) \<le> length newer"
proof -
  have s: "sorted (map snd (older @ newer))"
    using assms(1,2) unfolding assms(3) [symmetric] by (auto simp: sorted_append)
  have "hd newer \<in> set (h @ [(k, now)])"
    using assms(3,5) by simp
  then have "snd (hd newer) \<le> now"
    using assms(2) by auto
  then have old: "snd (last older) < now - SEQUENCE_TIMEOUT"
    using assms(6) by simp
  have "\<forall>e\<in>set older. snd e \<le> snd (last older)"
  proof
    fix e assume e: "e \<in> set older"
    have so: "sorted (map snd older)" using s by (simp add: sorted_append)
    obtain i where i: "i < length older" "older ! i = e"
      using e by (auto simp: in_set_conv_nth)
    have "map snd older ! i \<le> map snd older ! (length older - 1)"
      using so i(1) by (intro sorted_nth_mono) auto
    then show "snd e \<le> snd (last older)"
      using i assms(4) by (simp add: last_conv_nth)
  qed
  then have "\<forall>e\<in>set older. snd e < now - SEQUENCE_TIMEOUT"
    using old by fastforce
  then have "record_key k now h = prune now newer"
    unfolding record_key_def assms(3) by (rule prune_stale_prefix)
  then show ?thesis by (simp add: prune_length)
qed

lemma check_sequence_match_Some:
  assumes "fst (check_sequence_match seqs w) = Some m"
  shows "tail_matches m (recent_history w)" and "m \<in> set seqs"
    and "length (sequence m) \<le> length w"
proof -
  have f: "List.find (\<lambda>m. tail_matches m (recent_history w)) seqs = Some m"
    using assms by (simp add: check_sequence_match_def check_loop_find split: option.splits)
  then show tm: "tail_matches m (recent_history w)" and "m \<in> set seqs"
    by (auto simp: find_Some_iff)
  have "length (recent_history w) \<le> length w"
    by (simp add: recent_history_def)
  with tm show "length (sequence m) \<le> length w"
    by (simp add: tail_matches_def)
qed

lemma handle_history:
  "key_history (snd (handle_mouse_button raises n now st))
     = record_key (button_key n) now (key_history st) \<or>
   key_history (snd (handle_mouse_button raises n now st)) = []"
proof (cases "fst (check_sequence_match (sequence_mappings st)
             (record_key (button_key n) now (key_history st)))")
  case None
  show ?thesis
    by (simp add: handle_unmatched [OF None] info_def split: option.splits)
next
  case (Some m)
  show ?thesis
    using handle_matched_outcome [OF Some, of raises] by blast
qed

subsection \<open>Scenarios and timers\<close>

lemma button_keys:
  "button_key 0 = ''button_0''" "button_key 1 = ''button_1''"
  "button_key 2 = ''button_2''" "button_key 3 = ''button_3''"
  by code_simp+

lemma parse_shortcut_nonempty:
  "fst (parse_shortcut s []) = Inr keys \<Longrightarrow> s \<noteq> []"
proof
  assume "fst (parse_shortcut s []) = Inr keys" and "s = []"
  moreover have "fst (parse_shortcut [] []) = Inl EmptyShortcut" by code_simp
  ultimately show False by simp
qed

lemma parse_shortcut_fresh:
  "fst (parse_shortcut s []) = Inr keys \<Longrightarrow> parse_shortcut s [] = (Inr keys, [(s, keys)])"
  by (auto simp: parse_shortcut_def split: sum.splits if_splits)

lemma execute_shortcut_ok_eq:
  assumes "parse_shortcut s (shortcut_cache st) = (Inr keys, c)" and "injects raises keys"
  shows "execute_shortcut raises s st =
     (Inr True, st\<lparr>shortcut_cache := c, log := log st @ [ExecStart s, ExecSuccess s],
                   keyboard := keyboard st @ map Press keys @ map Release (rev keys)\<rparr>)"
  using assms
  by (simp add: execute_shortcut_def injects_def info_def Let_def press_all_ok release_all_ok)

lemma prefix_scenario:
  assumes "fst (parse_shortcut A []) = Inr kA" and "injects raises kA"
  shows "executions (run raises
           (load_mappings (Inr [seq_record [''button_0''] A,
                                seq_record [''button_0'', ''button_1''] B]) initial)
           [Button 0 t0, Button 1 t1]) = [A]"
    and "key_history (run raises
           (load_mappings (Inr [seq_record [''button_0''] A,
                                seq_record [''button_0'', ''button_1''] B]) initial)
           [Button 0 t0, Button 1 t1]) = [(''button_1'', t1)]"
    and "keyboard (run raises
           (load_mappings (Inr [seq_record [''button_0''] A,
                                seq_record [''button_0'', ''button_1''] B]) initial)
           [Button 0 t0, Button 1 t1]) = map Press kA @ map Release (rev kA)"
proof -
  have A: "A \<noteq> []" using assms(1) by (rule parse_shortcut_nonempty)
  note p = parse_shortcut_fresh [OF assms(1)]
  note defs = run_def load_mappings_def seq_record_def initial_def info_def
        sort_by_length_desc_def handle_mouse_button_def Let_def button_keys record_key_def
        SEQUENCE_TIMEOUT_def check_sequence_match_def recent_history_def
        cancel_pending_single_key_def execute_shortcut_ok_eq [OF _ assms(2)] p executions_def
  show "executions (run raises
           (load_mappings (Inr [seq_record [''button_0''] A,
                                seq_record [''button_0'', ''button_1''] B]) initial)
           [Button 0 t0, Button 1 t1]) = [A]"
    using A by (simp add: defs)
  show "key_history (run raises
           (load_mappings (Inr [seq_record [''button_0''] A,
                                seq_record [''button_0'', ''button_1''] B]) initial)
           [Button 0 t0, Button 1 t1]) = [(''button_1'', t1)]"
    using A by (simp add: defs)
  show "keyboard (run raises
           (load_mappings (Inr [seq_record [''button_0''] A,
                                seq_record [''button_0'', ''button_1''] B]) initial)
           [Button 0 t0, Button 1 t1]) = map Press kA @ map Release (rev kA)"
    using A by (simp add: defs)
qed


lemma suffix_scenario:
  assumes "fst (parse_shortcut B []) = Inr kB" and "injects raises kB"
    and "t0 \<le> t1" and "t1 - t0 \<le> SEQUENCE_TIMEOUT"
  shows "executions (run raises
           (load_mappings (Inr [seq_record [''button_1''] A,
                                seq_record [''button_0'', ''button_1''] B]) initial)
           [Button 0 t0, Button 1 t1]) = [B]"
    and "key_history (run raises
           (load_mappings (Inr [seq_record [''button_1''] A,
                                seq_record [''button_0'', ''button_1''] B]) initial)
           [Button 0 t0, Button 1 t1]) = []"
    and "keyboard (run raises
           (load_mappings (Inr [seq_record [''button_1''] A,
                                seq_record [''button_0'', ''button_1''] B]) initial)
           [Button 0 t0, Button 1 t1]) = map Press kB @ map Release (rev kB)"
proof -
  have B: "B \<noteq> []" using assms(1) by (rule parse_shortcut_nonempty)
  have t: "\<not> t0 < t1 - 1 / 2" using assms(4) by (simp add: SEQUENCE_TIMEOUT_def)
  note p = parse_shortcut_fresh [OF assms(1)]
  note defs = run_def load_mappings_def seq_record_def initial_def info_def
        sort_by_length_desc_def handle_mouse_button_def Let_def button_keys record_key_def
        SEQUENCE_TIMEOUT_def check_sequence_match_def recent_history_def
        cancel_pending_single_key_def execute_shortcut_ok_eq [OF _ assms(2)] p executions_def
  show "executions (run raises
           (load_mappings (Inr [seq_record [''button_1''] A,
                                seq_record [''button_0'', ''button_1''] B]) initial)
           [Button 0 t0, Button 1 t1]) = [B]"
    using B t by (simp add: defs)
  show "key_history (run raises
           (load_mappings (Inr [seq_record [''button_1''] A,
                                seq_record [''button_0'', ''button_1''] B]) initial)
           [Button 0 t0, Button 1 t1]) = []"
    using B t by (simp add: defs)
  show "keyboard (run raises
           (load_mappings (Inr [seq_record [''button_1''] A,
                                seq_record [''button_0'', ''button_1''] B]) initial)
           [Button 0 t0, Button 1 t1]) = map Press kB @ map Release (rev kB)"
    using B t by (simp add: defs)
qed

lemma timer_fires_idle:
  "pending_single_key st = None \<Longrightarrow>
   timer_fires raises t st = st\<lparr>live_timers := removeAll t (live_timers st)\<rparr>"
  by (simp add: timer_fires_def execute_pending_single_key_def)

lemma handle_matched_cancels:
  assumes "fst (check_sequence_match (sequence_mappings st)
             (record_key (button_key n) now (key_history st))) = Some m"
  shows "pending_single_key (snd (handle_mouse_button raises n now st)) = None"
    and "pending_timer (snd (handle_mouse_button raises n now st)) = None"
    and "pending_timer st = Some t \<Longrightarrow> t \<notin> set (live_timers (snd (handle_mouse_button raises n now st)))"
proof -
  let ?st2 = "cancel_pending_single_key
                (st\<lparr>key_history := record_key (button_key n) now (key_history st)\<rparr>)"
  obtain r st3 where ex: "execute_shortcut raises (action m) ?st2 = (r, st3)"
    by (cases "execute_shortcut raises (action m) ?st2")
  have frame: "pending_single_key st3 = None" "pending_timer st3 = None"
      "live_timers st3 = live_timers ?st2"
    using execute_shortcut_frame(6,7,8) [of raises "action m" ?st2] ex by simp_all
  have h: "snd (handle_mouse_button raises n now st)
      = (case r of Inr ok \<Rightarrow> (info (SequenceExecuted (sequence m) (action m)) st3)\<lparr>key_history := []\<rparr>
         | Inl e \<Rightarrow> info (SequenceFailed e) st3)"
    using handle_matched [OF assms, of raises] ex by (simp split: sum.splits)
  show "pending_single_key (snd (handle_mouse_button raises n now st)) = None"
    unfolding h using frame by (simp add: info_def split: sum.splits)
  show "pending_timer (snd (handle_mouse_button raises n now st)) = None"
    unfolding h using frame by (simp add: info_def split: sum.splits)
  show "pending_timer st = Some t \<Longrightarrow> t \<notin> set (live_timers (snd (handle_mouse_button raises n now st)))"
    unfolding h using frame by (simp add: info_def cancel_pending_live_timers split: sum.splits)
qed

lemma handle_pending_none:
  assumes "pending_single_key st = None" and "pending_timer st = None"
  shows "pending_single_key (snd (handle_mouse_button raises n now st)) = None \<and>
         pending_timer (snd (handle_mouse_button raises n now st)) = None"
proof (cases "fst (check_sequence_match (sequence_mappings st)
             (record_key (button_key n) now (key_history st)))")
  case None
  show ?thesis
    using assms by (simp add: handle_unmatched [OF None] info_def split: option.splits)
next
  case (Some m)
  show ?thesis
    using handle_matched_cancels(1,2) [OF Some] by simp
qed

lemma step_pending_none:
  assumes "pending_single_key st = None" and "pending_timer st = None"
  shows "pending_single_key (step raises st ev) = None \<and> pending_timer (step raises st ev) = None"
proof (cases ev)
  case (Button n t)
  then show ?thesis using handle_pending_none [OF assms] by simp
next
  case (TimerFires t)
  then show ?thesis using assms by (simp add: timer_fires_idle)
next
  case (StartListener l)
  then show ?thesis using assms
    by (simp add: start_listener_def load_mappings_def info_def Let_def split: sum.splits prod.splits)
next
  case StopListener
  then show ?thesis by (simp add: stop_listener_def assms Let_def)
next
  case (Reload l)
  then show ?thesis using assms
    by (simp add: load_mappings_def info_def Let_def split: sum.splits prod.splits)
qed

lemma run_pending_none:
  assumes "pending_single_key st = None" and "pending_timer st = None"
  shows "pending_single_key (run raises st evs) = None \<and> pending_timer (run raises st evs) = None"
  using assms
proof (induction evs arbitrary: st)
  case Nil
  then show ?case by (simp add: run_def)
next
  case (Cons ev evs)
  have "run raises st (ev # evs) = run raises (step raises st ev) evs"
    by (simp add: run_def)
  then show ?case
    using Cons.IH step_pending_none [OF Cons.prems] by simp
qed

subsection \<open>Invariants of the reachable states\<close>

lemma execute_shortcut_cache:
  "shortcut_cache (snd (execute_shortcut raises s st)) = snd (parse_shortcut s (shortcut_cache st))"
  by (simp add: execute_shortcut_def info_def Let_def split: prod.splits sum.splits bool.splits)

lemma execute_shortcut_cache_ok:
  "cache_ok (shortcut_cache st) \<Longrightarrow> cache_ok (shortcut_cache (snd (execute_shortcut raises s st)))"
  by (simp add: execute_shortcut_cache parse_shortcut_cache_ok)

lemma handle_cache_ok:
  assumes "cache_ok (shortcut_cache st)"
  shows "cache_ok (shortcut_cache (snd (handle_mouse_button raises n now st)))"
proof (cases "fst (check_sequence_match (sequence_mappings st)
             (record_key (button_key n) now (key_history st)))")
  case None
  show ?thesis
    using assms by (simp add: handle_unmatched [OF None] info_def split: option.splits)
next
  case (Some m)
  let ?st2 = "cancel_pending_single_key
                (st\<lparr>key_history := record_key (button_key n) now (key_history st)\<rparr>)"
  obtain r st3 where ex: "execute_shortcut raises (action m) ?st2 = (r, st3)"
    by (cases "execute_shortcut raises (action m) ?st2")
  have "cache_ok (shortcut_cache st3)"
    using execute_shortcut_cache_ok [of ?st2 raises "action m"] assms ex by simp
  then show ?thesis
    using handle_matched [OF Some, of raises] ex by (simp add: info_def split: sum.splits)
qed

lemma timer_fires_cache_ok:
  assumes "cache_ok (shortcut_cache st)"
  shows "cache_ok (shortcut_cache (timer_fires raises t st))"
proof (cases "t \<in> set (live_timers st) \<and> pending_single_key st \<noteq> None")
  case False
  then show ?thesis using assms
    by (cases "pending_single_key st")
       (auto simp: timer_fires_def execute_pending_single_key_def)
next
  case True
  then obtain k a ts where p: "pending_single_key st = Some (k, a, ts)"
    by (cases "pending_single_key st") auto
  let ?st1 = "st\<lparr>live_timers := removeAll t (live_timers st), pending_single_key := None,
                  pending_timer := None\<rparr>"
  obtain r st2 where ex: "execute_shortcut raises a ?st1 = (r, st2)"
    by (cases "execute_shortcut raises a ?st1")
  have "cache_ok (shortcut_cache st2)"
    using execute_shortcut_cache_ok [of ?st1 raises a] assms ex by simp
  then show ?thesis
    using True p ex
    by (simp add: timer_fires_def execute_pending_single_key_def info_def split: sum.splits)
qed

lemma step_cache_ok:
  assumes "cache_ok (shortcut_cache st)"
  shows "cache_ok (shortcut_cache (step raises st ev))"
proof (cases ev)
  case (Button n t)
  then show ?thesis using handle_cache_ok [OF assms] by simp
next
  case (TimerFires t)
  then show ?thesis using timer_fires_cache_ok [OF assms] by simp
next
  case (StartListener l)
  then show ?thesis using assms
    by (simp add: start_listener_def load_mappings_def info_def Let_def split: sum.splits prod.splits)
next
  case StopListener
  then show ?thesis using assms by (simp add: stop_listener_def Let_def)
next
  case (Reload l)
  then show ?thesis using assms
    by (simp add: load_mappings_def info_def Let_def split: sum.splits prod.splits)
qed

lemma run_cache_ok:
  "cache_ok (shortcut_cache st) \<Longrightarrow> cache_ok (shortcut_cache (run raises st evs))"
proof (induction evs arbitrary: st)
  case Nil
  then show ?case by (simp add: run_def)
next
  case (Cons ev evs)
  have "run raises st (ev # evs) = run raises (step raises st ev) evs"
    by (simp add: run_def)
  then show ?case
    using Cons.IH [OF step_cache_ok [OF Cons.prems]] by simp
qed

lemma reachable_cache_ok: "cache_ok (shortcut_cache (run raises initial evs))"
  by (rule run_cache_ok) (simp add: initial_def cache_ok_def)

lemma reachable_pending_none:
  "pending_single_key (run raises initial evs) = None \<and> pending_timer (run raises initial evs) = None"
  by (rule run_pending_none) (simp_all add: initial_def)

subsection \<open>Lifecycle\<close>

lemma lifecycle_results:
  "(is_listening st \<longrightarrow> start_listener loaded st = ((False, AlreadyRunning), st)) \<and>
   (\<not> is_listening st \<longrightarrow> stop_listener st = ((False, NotRunning), st)) \<and>
   (is_listening st \<longrightarrow>
      fst (stop_listener st) = (True, Stopped) \<and>
      \<not> is_listening (snd (stop_listener st)) \<and>
      key_history (snd (stop_listener st)) = [] \<and>
      pending_single_key (snd (stop_listener st)) = None \<and>
      pending_timer (snd (stop_listener st)) = None \<and>
      listener_threads (snd (stop_listener st)) = listener_threads st) \<and>
   (\<not> is_listening st \<longrightarrow>
      fst (start_listener loaded st) = (True, Started) \<and>
      is_listening (snd (start_listener loaded st)) \<and>
      fst (start_listener loaded' (snd (start_listener loaded st))) = (False, AlreadyRunning) \<and>
      listener_threads (snd (start_listener loaded' (snd (start_listener loaded st))))
        = Suc (listener_threads st))"
  by (auto simp: start_listener_def stop_listener_def Let_def load_mappings_def info_def
        cancel_pending_live_timers split: sum.splits prod.splits)

subsection \<open>Outcome of the parser\<close>


section \<open>Claims\<close>

text \<open>
  C10. When fetching the mapping records from the configuration store raises, loading
  leaves the single-key map and the sequence list empty, whatever the tables held before;
  nothing of the previously loaded tables is retained. The same holds when the load is
  the one done by a reload or by starting the listener.
\<close>

theorem load_failure_empties_tables:
  "button_mappings (load_mappings (Inl e) st) = [] \<and>
   sequence_mappings (load_mappings (Inl e) st) = [] \<and>
   button_mappings (step raises st (Reload (Inl e))) = [] \<and>
   sequence_mappings (step raises st (Reload (Inl e))) = [] \<and>
   (\<not> is_listening st \<longrightarrow>
      button_mappings (snd (start_listener (Inl e) st)) = [] \<and>
      sequence_mappings (snd (start_listener (Inl e) st)) = [])"
  by (simp add: load_mappings_Inl_tables start_listener_def Let_def)

theorem load_failure_empties_tables_witness:
  "button_mappings
     (load_mappings
        (Inr [\<lparr>btn_action = Some ''ctrl+c'', btn_sequence = None,
               btn_keyType = Some ''button_3'', btn_name = None\<rparr>,
              \<lparr>btn_action = Some ''ctrl+v'', btn_sequence = Some [''button_3'', ''button_4''],
               btn_keyType = None, btn_name = Some ''paste''\<rparr>]) initial)
     = [(''button_3'', ''ctrl+c'')] \<and>
   map sequence (sequence_mappings
     (load_mappings
        (Inr [\<lparr>btn_action = Some ''ctrl+c'', btn_sequence = None,
               btn_keyType = Some ''button_3'', btn_name = None\<rparr>,
              \<lparr>btn_action = Some ''ctrl+v'', btn_sequence = Some [''button_3'', ''button_4''],
               btn_keyType = None, btn_name = Some ''paste''\<rparr>]) initial))
     = [[''button_3'', ''button_4'']] \<and>
   button_mappings
     (load_mappings (Inl ControllerError)
        (load_mappings
           (Inr [\<lparr>btn_action = Some ''ctrl+c'', btn_sequence = None,
                  btn_keyType = Some ''button_3'', btn_name = None\<rparr>,
                 \<lparr>btn_action = Some ''ctrl+v'', btn_sequence = Some [''button_3'', ''button_4''],
                  btn_keyType = None, btn_name = Some ''paste''\<rparr>]) initial)) = [] \<and>
   sequence_mappings
     (load_mappings (Inl ControllerError)
        (load_mappings
           (Inr [\<lparr>btn_action = Some ''ctrl+c'', btn_sequence = None,
                  btn_keyType = Some ''button_3'', btn_name = None\<rparr>,
                 \<lparr>btn_action = Some ''ctrl+v'', btn_sequence = Some [''button_3'', ''button_4''],
                  btn_keyType = None, btn_name = Some ''paste''\<rparr>]) initial)) = []"
  using load_failure_empties_tables
    [of ControllerError
        "load_mappings
           (Inr [\<lparr>btn_action = Some ''ctrl+c'', btn_sequence = None,
                  btn_keyType = Some ''button_3'', btn_name = None\<rparr>,
                 \<lparr>btn_action = Some ''ctrl+v'', btn_sequence = Some [''button_3'', ''button_4''],
                  btn_keyType = None, btn_name = Some ''paste''\<rparr>]) initial"]
  by (simp add: load_mappings_def info_def sort_by_length_desc_def)



text \<open>
  C7. When the shortcut parses to the keys \<open>k1, ..., kn\<close> and the controller raises on
  none of them, the executor succeeds and the calls it issues are the presses of
  \<open>k1, ..., kn\<close> in that order followed by the releases in the reversed order
  \<open>kn, ..., k1\<close>. Whatever the controller does, the calls issued are an initial part of
  that sequence.
\<close>

theorem press_release_order:
  assumes "fst (parse_shortcut s (shortcut_cache st)) = Inr keys"
  shows "(injects raises keys \<longrightarrow>
            fst (execute_shortcut raises s st) = Inr True \<and>
            keyboard (snd (execute_shortcut raises s st))
              = keyboard st @ map Press keys @ map Release (rev keys)) \<and>
         (\<exists>n. keyboard (snd (execute_shortcut raises s st))
              = keyboard st @ take n (map Press keys @ map Release (rev keys)))"
proof (intro conjI impI)
  assume inj: "injects raises keys"
  show "fst (execute_shortcut raises s st) = Inr True"
    using execute_shortcut_ok(1) [OF assms inj] .
  show "keyboard (snd (execute_shortcut raises s st))
          = keyboard st @ map Press keys @ map Release (rev keys)"
    using execute_shortcut_ok(2) [OF assms inj] .
next
  obtain c where p: "parse_shortcut s (shortcut_cache st) = (Inr keys, c)"
    using assms by (cases "parse_shortcut s (shortcut_cache st)") simp
  obtain n where n: "snd (press_all raises keys (keyboard st)) = keyboard st @ take n (map Press keys)"
    using press_all_issued by blast
  show "\<exists>n. keyboard (snd (execute_shortcut raises s st))
              = keyboard st @ take n (map Press keys @ map Release (rev keys))"
  proof (cases "fst (press_all raises keys (keyboard st))")
    case False
    then have "keyboard (snd (execute_shortcut raises s st)) = snd (press_all raises keys (keyboard st))"
      using p by (auto simp: execute_shortcut_def info_def Let_def split: prod.splits bool.splits)
    moreover have "take n (map Press keys)
        = take (min n (length keys)) (map Press keys @ map Release (rev keys))"
      by (simp add: min_def)
    ultimately have "keyboard (snd (execute_shortcut raises s st))
        = keyboard st @ take (min n (length keys)) (map Press keys @ map Release (rev keys))"
      using n by simp
    then have "\<exists>m. keyboard (snd (execute_shortcut raises s st))
        = keyboard st @ take m (map Press keys @ map Release (rev keys))"
      by blast
    then show ?thesis .
  next
    case True
    then have all: "press_all raises keys (keyboard st) = (True, keyboard st @ map Press keys)"
      by (simp add: press_all_fst press_all_ok)
    obtain m where m: "snd (release_all raises (rev keys) (keyboard st @ map Press keys))
        = (keyboard st @ map Press keys) @ take m (map Release (rev keys))"
      using release_all_issued by blast
    have "keyboard (snd (execute_shortcut raises s st))
        = snd (release_all raises (rev keys) (keyboard st @ map Press keys))"
      using p all by (auto simp: execute_shortcut_def info_def Let_def split: prod.splits bool.splits)
    then have "keyboard (snd (execute_shortcut raises s st))
        = keyboard st @ take (length keys + m) (map Press keys @ map Release (rev keys))"
      using m by simp
    then show ?thesis by blast
  qed
qed

theorem press_release_order_witness:
  "fst (parse_shortcut ''ctrl+shift+c'' (shortcut_cache initial))
     = Inr [Key_ctrl, Key_shift, KeyChar CHR ''c''] \<and>
   injects (\<lambda>c. False) [Key_ctrl, Key_shift, KeyChar CHR ''c''] \<and>
   fst (execute_shortcut (\<lambda>c. False) ''ctrl+shift+c'' initial) = Inr True \<and>
   keyboard (snd (execute_shortcut (\<lambda>c. False) ''ctrl+shift+c'' initial))
     = [Press Key_ctrl, Press Key_shift, Press (KeyChar CHR ''c''),
        Release (KeyChar CHR ''c''), Release Key_shift, Release Key_ctrl]"
proof -
  have p: "fst (parse_shortcut ''ctrl+shift+c'' (shortcut_cache initial))
     = Inr [Key_ctrl, Key_shift, KeyChar CHR ''c'']"
    by code_simp
  have i: "injects (\<lambda>c. False) [Key_ctrl, Key_shift, KeyChar CHR ''c'']"
    by (simp add: injects_def)
  have k: "keyboard initial = []"
    by (simp add: initial_def)
  show ?thesis
    using press_release_order [OF p, of "\<lambda>c. False"] p i k by simp
qed

text \<open>
  C8. For every shortcut string and every state, the fast variant and the normal
  variant issue the same keyboard calls and leave the same state apart from the log,
  which only the normal variant writes. The fast variant returns \<open>True\<close> exactly when
  the normal one returns \<open>True\<close>, and returns \<open>False\<close> exactly when the normal one raises
  its \<^verbatim>\<open>ValueError\<close>.
\<close>

theorem fast_variant_same_keys:
  "snd (execute_shortcut_fast raises s st) = (snd (execute_shortcut raises s st))\<lparr>log := log st\<rparr> \<and>
   keyboard (snd (execute_shortcut_fast raises s st)) = keyboard (snd (execute_shortcut raises s st)) \<and>
   (fst (execute_shortcut_fast raises s st) = True
      \<longleftrightarrow> fst (execute_shortcut raises s st) = Inr True) \<and>
   (fst (execute_shortcut_fast raises s st) = False
      \<longleftrightarrow> (\<exists>e. fst (execute_shortcut raises s st) = Inl (ExecuteFailed e)))"
  by (auto simp: execute_shortcut_fast_def execute_shortcut_def info_def Let_def
        split: prod.splits sum.splits bool.splits)

theorem fast_variant_same_keys_witness:
  "keyboard (snd (execute_shortcut_fast (\<lambda>c. False) ''alt+f4'' initial))
     = [Press Key_alt, Press (Key_f 4), Release (Key_f 4), Release Key_alt] \<and>
   keyboard (snd (execute_shortcut (\<lambda>c. False) ''alt+f4'' initial))
     = [Press Key_alt, Press (Key_f 4), Release (Key_f 4), Release Key_alt] \<and>
   fst (execute_shortcut_fast (\<lambda>c. False) ''alt+f4'' initial) = True \<and>
   fst (execute_shortcut (\<lambda>c. False) ''alt+f4'' initial) = Inr True \<and>
   fst (execute_shortcut_fast (\<lambda>c. False) ''alt+foo'' initial) = False \<and>
   fst (execute_shortcut (\<lambda>c. False) ''alt+foo'' initial)
     = Inl (ExecuteFailed (InvalidFunctionKey ''foo'')) \<and>
   fst (execute_shortcut_fast (\<lambda>c. c = Press (Key_f 4)) ''alt+f4'' initial) = False \<and>
   fst (execute_shortcut (\<lambda>c. c = Press (Key_f 4)) ''alt+f4'' initial)
     = Inl (ExecuteFailed ControllerError) \<and>
   keyboard (snd (execute_shortcut_fast (\<lambda>c. c = Press (Key_f 4)) ''alt+f4'' initial))
     = [Press Key_alt, Press (Key_f 4)]"
proof -
  have a: "keyboard (snd (execute_shortcut (\<lambda>c. False) ''alt+f4'' initial))
     = [Press Key_alt, Press (Key_f 4), Release (Key_f 4), Release Key_alt]"
    by code_simp
  have b: "fst (execute_shortcut (\<lambda>c. False) ''alt+f4'' initial) = Inr True"
    by code_simp
  have c: "fst (execute_shortcut (\<lambda>c. False) ''alt+foo'' initial)
     = Inl (ExecuteFailed (InvalidFunctionKey ''foo''))"
    by code_simp
  have d: "fst (execute_shortcut (\<lambda>c. c = Press (Key_f 4)) ''alt+f4'' initial)
     = Inl (ExecuteFailed ControllerError)"
    by code_simp
  have e: "keyboard (snd (execute_shortcut (\<lambda>c. c = Press (Key_f 4)) ''alt+f4'' initial))
     = [Press Key_alt, Press (Key_f 4)]"
    by code_simp
  show ?thesis
    using fast_variant_same_keys [of "\<lambda>c. False" "''alt+f4''" initial]
      fast_variant_same_keys [of "\<lambda>c. False" "''alt+foo''" initial]
      fast_variant_same_keys [of "\<lambda>c. c = Press (Key_f 4)" "''alt+f4''" initial]
      a b c d e
    by simp
qed

text \<open>
  C4, as the code has it. When the recorded window matches a sequence and the shortcut
  of that sequence executes (it parses and the controller raises on none of its keys),
  the handler returns \<open>True\<close> and the whole history is emptied, not only the matched
  suffix. When the execution raises, the handler returns \<open>False\<close> and the history stays
  the window as recorded, matched entries included.
\<close>

theorem match_clears_history_on_success:
  assumes "fst (check_sequence_match (sequence_mappings st)
             (record_key (button_key n) now (key_history st))) = Some m"
  shows "(runs_ok raises (action m) (shortcut_cache st) \<longrightarrow>
            fst (handle_mouse_button raises n now st) = True \<and>
            key_history (snd (handle_mouse_button raises n now st)) = []) \<and>
         (\<not> runs_ok raises (action m) (shortcut_cache st) \<longrightarrow>
            fst (handle_mouse_button raises n now st) = False \<and>
            key_history (snd (handle_mouse_button raises n now st))
              = record_key (button_key n) now (key_history st))"
  using assms by (rule handle_matched_outcome)

theorem match_clears_history_on_success_witness:
  "key_history (snd (handle_mouse_button no_raise 5 0
          (load_mappings (Inr [seq_record [''button_0''] ''ctrl+c'']) initial)))
     = [(''button_5'', 0)] \<and>
   check_sequence_match [\<lparr>sequence = [''button_0''], action = ''ctrl+c'', name = []\<rparr>]
       [(''button_5'', 0), (''button_0'', 1 / 10)]
     = (Some \<lparr>sequence = [''button_0''], action = ''ctrl+c'', name = []\<rparr>,
        [(''button_5'', 0)]) \<and>
   fst (handle_mouse_button no_raise 0 (1 / 10)
          (snd (handle_mouse_button no_raise 5 0
             (load_mappings (Inr [seq_record [''button_0''] ''ctrl+c'']) initial)))) = True \<and>
   key_history (snd (handle_mouse_button no_raise 0 (1 / 10)
          (snd (handle_mouse_button no_raise 5 0
             (load_mappings (Inr [seq_record [''button_0''] ''ctrl+c'']) initial))))) = [] \<and>
   fst (handle_mouse_button no_raise 0 (1 / 10)
          (snd (handle_mouse_button no_raise 5 0
             (load_mappings (Inr [seq_record [''button_0''] ''foo'']) initial)))) = False \<and>
   key_history (snd (handle_mouse_button no_raise 0 (1 / 10)
          (snd (handle_mouse_button no_raise 5 0
             (load_mappings (Inr [seq_record [''button_0''] ''foo'']) initial)))))
     = [(''button_5'', 0), (''button_0'', 1 / 10)]"
proof -
  let ?ok = "snd (handle_mouse_button no_raise 5 0
             (load_mappings (Inr [seq_record [''button_0''] ''ctrl+c'']) initial))"
  let ?bad = "snd (handle_mouse_button no_raise 5 0
             (load_mappings (Inr [seq_record [''button_0''] ''foo'']) initial))"
  have h: "key_history ?ok = [(''button_5'', 0)]" "key_history ?bad = [(''button_5'', 0)]"
    by code_simp+
  have w: "record_key (button_key 0) (1 / 10) [(''button_5'', 0)]
      = [(''button_5'', 0), (''button_0'', 1 / 10)]"
    by code_simp
  have c: "check_sequence_match [\<lparr>sequence = [''button_0''], action = ''ctrl+c'', name = []\<rparr>]
       [(''button_5'', 0), (''button_0'', 1 / 10)]
     = (Some \<lparr>sequence = [''button_0''], action = ''ctrl+c'', name = []\<rparr>,
        [(''button_5'', 0)])"
    by code_simp
  have m1: "fst (check_sequence_match (sequence_mappings ?ok)
       (record_key (button_key 0) (1 / 10) (key_history ?ok)))
     = Some \<lparr>sequence = [''button_0''], action = ''ctrl+c'', name = []\<rparr>"
    unfolding h by code_simp
  have m2: "fst (check_sequence_match (sequence_mappings ?bad)
       (record_key (button_key 0) (1 / 10) (key_history ?bad)))
     = Some \<lparr>sequence = [''button_0''], action = ''foo'', name = []\<rparr>"
    unfolding h by code_simp
  have r1: "runs_ok no_raise ''ctrl+c'' (shortcut_cache ?ok)"
    by code_simp
  have r2: "\<not> runs_ok no_raise ''foo'' (shortcut_cache ?bad)"
    by code_simp
  show ?thesis
    using match_clears_history_on_success [OF m1, of no_raise]
      match_clears_history_on_success [OF m2, of no_raise] r1 r2 h w c
    by simp
qed

text \<open>
  C4, as stated, fails: with the sequence \<^verbatim>\<open>[button_0]\<close> mapped to the action \<^verbatim>\<open>foo\<close>,
  which is no shortcut, the event \<^verbatim>\<open>button_0\<close> matches the sequence and the history
  still holds the entry afterwards.
\<close>

theorem match_keeps_history_counterexample:
  "fst (check_sequence_match
       (sequence_mappings (load_mappings (Inr [seq_record [''button_0''] ''foo'']) initial))
       (record_key (button_key 0) 0
          (key_history (load_mappings (Inr [seq_record [''button_0''] ''foo'']) initial))))
     = Some \<lparr>sequence = [''button_0''], action = ''foo'', name = []\<rparr> \<and>
   key_history (snd (handle_mouse_button no_raise 0 0
          (load_mappings (Inr [seq_record [''button_0''] ''foo'']) initial)))
     = [(''button_0'', 0)]"
  by code_simp

text \<open>
  C5, as the code has it. Let the clock readings be non-decreasing: the stored history
  is ordered by time and holds nothing later than \<open>now\<close>. Then the window recorded for a
  button event at time \<open>now\<close> holds no entry older than \<open>now - SEQUENCE_TIMEOUT\<close> and
  stays ordered, and the event leaves the history either that window or empty. The
  stored history is not capped; the matcher looks at its last 20 entries only, so a
  matched sequence has at most 20 tokens and equals the tail of those entries. A
  sequence split by a gap longer than \<open>SEQUENCE_TIMEOUT\<close> does not match: when two
  consecutive entries are further apart than the timeout, a matched sequence is no
  longer than the part after the gap.
\<close>

theorem history_window_bounds:
  assumes "sorted (map snd (key_history st))" and "\<forall>e\<in>set (key_history st). snd e \<le> now"
  shows "(\<forall>e\<in>set (record_key (button_key n) now (key_history st)).
            now - SEQUENCE_TIMEOUT \<le> snd e \<and> snd e \<le> now) \<and>
         sorted (map snd (record_key (button_key n) now (key_history st))) \<and>
         (key_history (snd (handle_mouse_button raises n now st))
            = record_key (button_key n) now (key_history st) \<or>
          key_history (snd (handle_mouse_button raises n now st)) = []) \<and>
         length (recent_history (record_key (button_key n) now (key_history st))) \<le> 20 \<and>
         (\<forall>m. fst (check_sequence_match (sequence_mappings st)
                    (record_key (button_key n) now (key_history st))) = Some m \<longrightarrow>
              tail_matches m (recent_history (record_key (button_key n) now (key_history st))) \<and>
              length (sequence m) \<le> 20 \<and>
              (\<forall>older newer.
                 key_history st @ [(button_key n, now)] = older @ newer \<and>
                 older \<noteq> [] \<and> newer \<noteq> [] \<and>
                 snd (last older) < snd (hd newer) - SEQUENCE_TIMEOUT \<longrightarrow>
                 length (sequence m) \<le> length newer))"
proof (intro conjI allI impI)
  show "\<forall>e\<in>set (record_key (button_key n) now (key_history st)).
            now - SEQUENCE_TIMEOUT \<le> snd e \<and> snd e \<le> now"
    using assms by (rule record_key_fresh)
  show "sorted (map snd (record_key (button_key n) now (key_history st)))"
    using assms by (rule record_key_sorted)
  show "key_history (snd (handle_mouse_button raises n now st))
            = record_key (button_key n) now (key_history st) \<or>
          key_history (snd (handle_mouse_button raises n now st)) = []"
    by (rule handle_history)
  show "length (recent_history (record_key (button_key n) now (key_history st))) \<le> 20"
    by (rule recent_history_length)
next
  fix m
  assume m: "fst (check_sequence_match (sequence_mappings st)
                    (record_key (button_key n) now (key_history st))) = Some m"
  show tm: "tail_matches m (recent_history (record_key (button_key n) now (key_history st)))"
    using m by (rule check_sequence_match_Some(1))
  show "length (sequence m) \<le> 20"
    using tm recent_history_length [of "record_key (button_key n) now (key_history st)"]
    by (simp add: tail_matches_def)
next
  fix m older newer
  assume m: "fst (check_sequence_match (sequence_mappings st)
                    (record_key (button_key n) now (key_history st))) = Some m"
    and gap: "key_history st @ [(button_key n, now)] = older @ newer \<and>
                 older \<noteq> [] \<and> newer \<noteq> [] \<and>
                 snd (last older) < snd (hd newer) - SEQUENCE_TIMEOUT"
  have "length (record_key (button_key n) now (key_history st)) \<le> length newer"
    using record_key_gap [OF assms, of "button_key n" older newer] gap by blast
  moreover have "length (sequence m) \<le> length (record_key (button_key n) now (key_history st))"
    using m by (rule check_sequence_match_Some(3))
  ultimately show "length (sequence m) \<le> length newer" by simp
qed

theorem history_window_bounds_witness:
  "sorted (map snd (key_history
     (snd (handle_mouse_button no_raise 0 0
       (load_mappings (Inr [seq_record [''button_0'', ''button_1''] ''ctrl+c'',
                            seq_record [''button_1''] ''ctrl+v'']) initial))))) \<and>
   key_history
     (snd (handle_mouse_button no_raise 0 0
       (load_mappings (Inr [seq_record [''button_0'', ''button_1''] ''ctrl+c'',
                            seq_record [''button_1''] ''ctrl+v'']) initial)))
     = [(''button_0'', 0)] \<and>
   record_key (button_key 1) 1 [(''button_0'', 0)] = [(''button_1'', 1)] \<and>
   fst (check_sequence_match
     (sequence_mappings (snd (handle_mouse_button no_raise 0 0
       (load_mappings (Inr [seq_record [''button_0'', ''button_1''] ''ctrl+c'',
                            seq_record [''button_1''] ''ctrl+v'']) initial))))
     (record_key (button_key 1) 1 [(''button_0'', 0)]))
     = Some \<lparr>sequence = [''button_1''], action = ''ctrl+v'', name = []\<rparr> \<and>
   length (sequence \<lparr>sequence = [''button_1''], action = ''ctrl+v'', name = []\<rparr>)
     \<le> length [(''button_1'', 1::rat)]"
proof -
  let ?st = "snd (handle_mouse_button no_raise 0 0
       (load_mappings (Inr [seq_record [''button_0'', ''button_1''] ''ctrl+c'',
                            seq_record [''button_1''] ''ctrl+v'']) initial))"
  have h: "key_history ?st = [(''button_0'', 0)]"
    by code_simp
  have s: "sorted (map snd (key_history ?st))"
    unfolding h by simp
  have b: "\<forall>e\<in>set (key_history ?st). snd e \<le> 1"
    unfolding h by simp
  have w: "record_key (button_key 1) 1 [(''button_0'', 0)] = [(''button_1'', 1)]"
    by code_simp
  have m: "fst (check_sequence_match (sequence_mappings ?st)
              (record_key (button_key 1) 1 (key_history ?st)))
     = Some \<lparr>sequence = [''button_1''], action = ''ctrl+v'', name = []\<rparr>"
    unfolding h by code_simp
  have k: "button_key 1 = ''button_1''"
    by code_simp
  have gap: "key_history ?st @ [(button_key 1, 1)] = [(''button_0'', 0)] @ [(''button_1'', 1)] \<and>
      [(''button_0'', 0::rat)] \<noteq> [] \<and> [(''button_1'', 1::rat)] \<noteq> [] \<and>
      snd (last [(''button_0'', 0::rat)]) < snd (hd [(''button_1'', 1::rat)]) - SEQUENCE_TIMEOUT"
    unfolding h k by (simp add: SEQUENCE_TIMEOUT_def)
  have "length (sequence \<lparr>sequence = [''button_1''], action = ''ctrl+v'', name = []\<rparr>)
     \<le> length [(''button_1'', 1::rat)]"
    using history_window_bounds [OF s b, of 1 no_raise] m gap by blast
  then show ?thesis
    using h s w m by simp
qed

text \<open>
  C5, as stated, fails. The stored history is not capped at 20: without mappings, 21
  events at one clock reading leave 21 entries. And when the clock is set back between
  two events (\<^verbatim>\<open>time.time()\<close> may return a lower value than before), pruning stops at
  the first fresh entry and an older one behind it stays.
\<close>

theorem history_window_unbounded_counterexample:
  "length (key_history (run no_raise initial (replicate 21 (Button 0 0)))) = 21 \<and>
   key_history (run no_raise initial [Button 0 10, Button 0 5, Button 0 (51 / 5)])
     = [(''button_0'', 10), (''button_0'', 5), (''button_0'', 51 / 5)] \<and>
   (5::rat) < 51 / 5 - SEQUENCE_TIMEOUT"
  by code_simp

text \<open>
  C1, as the code has it. Loading leaves the sequence list ordered by length, longest
  first; the matcher returns the first candidate of the list whose tokens equal the
  trailing slice of the window (its last 20 entries) of the candidate's length, so
  among the candidates that match one window the longest wins. With the mappings
  \<^verbatim>\<open>[button_0] -> A\<close> and \<^verbatim>\<open>[button_0, button_1] -> B\<close>, where \<^verbatim>\<open>A\<close> is a shortcut the
  controller accepts, the event \<^verbatim>\<open>button_0\<close> alone already matches the first mapping:
  feeding \<^verbatim>\<open>button_0\<close> and then \<^verbatim>\<open>button_1\<close> executes \<^verbatim>\<open>A\<close> once and nothing else, and the
  history holds the \<^verbatim>\<open>button_1\<close> entry afterwards. The sequences that compete share a
  suffix: with \<^verbatim>\<open>[button_1] -> A\<close> and \<^verbatim>\<open>[button_0, button_1] -> B\<close>, feeding
  \<^verbatim>\<open>button_0\<close> and then \<^verbatim>\<open>button_1\<close> within \<open>SEQUENCE_TIMEOUT\<close> executes \<^verbatim>\<open>B\<close> once and
  nothing else, and the history is empty afterwards.
\<close>

theorem longest_match_priority:
  "length_descending (sequence_mappings (load_mappings (Inr buttons) st)) \<and>
   check_sequence_match seqs h =
     (case List.find (\<lambda>m. tail_matches m (recent_history h)) seqs of
        None \<Rightarrow> (None, recent_history h)
      | Some m \<Rightarrow> (Some m, take (length (recent_history h) - length (sequence m))
                              (recent_history h))) \<and>
   (length_descending seqs \<and> fst (check_sequence_match seqs h) = Some m \<longrightarrow>
      (\<forall>m'\<in>set seqs. tail_matches m' (recent_history h) \<longrightarrow>
          length (sequence m') \<le> length (sequence m))) \<and>
   (fst (parse_shortcut A []) = Inr kA \<and> injects raises kA \<longrightarrow>
      executions (run raises
         (load_mappings (Inr [seq_record [''button_0''] A,
                              seq_record [''button_0'', ''button_1''] B]) initial)
         [Button 0 t0, Button 1 t1]) = [A] \<and>
      keyboard (run raises
         (load_mappings (Inr [seq_record [''button_0''] A,
                              seq_record [''button_0'', ''button_1''] B]) initial)
         [Button 0 t0, Button 1 t1]) = map Press kA @ map Release (rev kA) \<and>
      key_history (run raises
         (load_mappings (Inr [seq_record [''button_0''] A,
                              seq_record [''button_0'', ''button_1''] B]) initial)
         [Button 0 t0, Button 1 t1]) = [(''button_1'', t1)]) \<and>
   (fst (parse_shortcut B []) = Inr kB \<and> injects raises kB \<and>
    t0 \<le> t1 \<and> t1 - t0 \<le> SEQUENCE_TIMEOUT \<longrightarrow>
      executions (run raises
         (load_mappings (Inr [seq_record [''button_1''] A,
                              seq_record [''button_0'', ''button_1''] B]) initial)
         [Button 0 t0, Button 1 t1]) = [B] \<and>
      keyboard (run raises
         (load_mappings (Inr [seq_record [''button_1''] A,
                              seq_record [''button_0'', ''button_1''] B]) initial)
         [Button 0 t0, Button 1 t1]) = map Press kB @ map Release (rev kB) \<and>
      key_history (run raises
         (load_mappings (Inr [seq_record [''button_1''] A,
                              seq_record [''button_0'', ''button_1''] B]) initial)
         [Button 0 t0, Button 1 t1]) = [])"
proof (intro conjI impI)
  show "length_descending (sequence_mappings (load_mappings (Inr buttons) st))"
    by (rule load_mappings_descending)
  show "check_sequence_match seqs h =
     (case List.find (\<lambda>m. tail_matches m (recent_history h)) seqs of
        None \<Rightarrow> (None, recent_history h)
      | Some m \<Rightarrow> (Some m, take (length (recent_history h) - length (sequence m))
                              (recent_history h)))"
    by (simp add: check_sequence_match_def check_loop_find)
next
  assume a: "length_descending seqs \<and> fst (check_sequence_match seqs h) = Some m"
  then have f: "List.find (\<lambda>m. tail_matches m (recent_history h)) seqs = Some m"
    by (simp add: check_sequence_match_def check_loop_find split: option.splits)
  show "\<forall>m'\<in>set seqs. tail_matches m' (recent_history h) \<longrightarrow>
          length (sequence m') \<le> length (sequence m)"
    using find_longest [OF _ f] a by blast
next
  assume a: "fst (parse_shortcut A []) = Inr kA \<and> injects raises kA"
  then have p: "fst (parse_shortcut A []) = Inr kA" and i: "injects raises kA" by simp_all
  show "executions (run raises
         (load_mappings (Inr [seq_record [''button_0''] A,
                              seq_record [''button_0'', ''button_1''] B]) initial)
         [Button 0 t0, Button 1 t1]) = [A]"
    using p i by (rule prefix_scenario(1))
  show "keyboard (run raises
         (load_mappings (Inr [seq_record [''button_0''] A,
                              seq_record [''button_0'', ''button_1''] B]) initial)
         [Button 0 t0, Button 1 t1]) = map Press kA @ map Release (rev kA)"
    using p i by (rule prefix_scenario(3))
  show "key_history (run raises
         (load_mappings (Inr [seq_record [''button_0''] A,
                              seq_record [''button_0'', ''button_1''] B]) initial)
         [Button 0 t0, Button 1 t1]) = [(''button_1'', t1)]"
    using p i by (rule prefix_scenario(2))
next
  assume a: "fst (parse_shortcut B []) = Inr kB \<and> injects raises kB \<and>
    t0 \<le> t1 \<and> t1 - t0 \<le> SEQUENCE_TIMEOUT"
  then have p: "fst (parse_shortcut B []) = Inr kB" and i: "injects raises kB"
    and t: "t0 \<le> t1" "t1 - t0 \<le> SEQUENCE_TIMEOUT" by simp_all
  show "executions (run raises
         (load_mappings (Inr [seq_record [''button_1''] A,
                              seq_record [''button_0'', ''button_1''] B]) initial)
         [Button 0 t0, Button 1 t1]) = [B]"
    using p i t by (rule suffix_scenario(1))
  show "keyboard (run raises
         (load_mappings (Inr [seq_record [''button_1''] A,
                              seq_record [''button_0'', ''button_1''] B]) initial)
         [Button 0 t0, Button 1 t1]) = map Press kB @ map Release (rev kB)"
    using p i t by (rule suffix_scenario(3))
  show "key_history (run raises
         (load_mappings (Inr [seq_record [''button_1''] A,
                              seq_record [''button_0'', ''button_1''] B]) initial)
         [Button 0 t0, Button 1 t1]) = []"
    using p i t by (rule suffix_scenario(2))
qed

theorem longest_match_priority_witness:
  "fst (parse_shortcut ''a'' []) = Inr [KeyChar CHR ''a''] \<and>
   fst (parse_shortcut ''b'' []) = Inr [KeyChar CHR ''b''] \<and>
   injects no_raise [KeyChar CHR ''a''] \<and> injects no_raise [KeyChar CHR ''b''] \<and>
   (0::rat) \<le> 1 / 10 \<and> (1 / 10 - 0 :: rat) \<le> SEQUENCE_TIMEOUT \<and>
   length_descending
     [\<lparr>sequence = [''button_0'', ''button_1''], action = ''b'', name = []\<rparr>,
      \<lparr>sequence = [''button_1''], action = ''a'', name = []\<rparr>] \<and>
   fst (check_sequence_match
     [\<lparr>sequence = [''button_0'', ''button_1''], action = ''b'', name = []\<rparr>,
      \<lparr>sequence = [''button_1''], action = ''a'', name = []\<rparr>]
     [(''button_0'', 0), (''button_1'', 1 / 10)])
     = Some \<lparr>sequence = [''button_0'', ''button_1''], action = ''b'', name = []\<rparr> \<and>
   tail_matches \<lparr>sequence = [''button_1''], action = ''a'', name = []\<rparr>
     (recent_history [(''button_0'', 0), (''button_1'', 1 / 10)]) \<and>
   length (sequence \<lparr>sequence = [''button_1''], action = ''a'', name = []\<rparr>)
     \<le> length (sequence \<lparr>sequence = [''button_0'', ''button_1''], action = ''b'', name = []\<rparr>) \<and>
   executions (run no_raise
      (load_mappings (Inr [seq_record [''button_0''] ''a'',
                           seq_record [''button_0'', ''button_1''] ''b'']) initial)
      [Button 0 0, Button 1 (1 / 10)]) = [''a''] \<and>
   key_history (run no_raise
      (load_mappings (Inr [seq_record [''button_0''] ''a'',
                           seq_record [''button_0'', ''button_1''] ''b'']) initial)
      [Button 0 0, Button 1 (1 / 10)]) = [(''button_1'', 1 / 10)] \<and>
   executions (run no_raise
      (load_mappings (Inr [seq_record [''button_1''] ''a'',
                           seq_record [''button_0'', ''button_1''] ''b'']) initial)
      [Button 0 0, Button 1 (1 / 10)]) = [''b''] \<and>
   key_history (run no_raise
      (load_mappings (Inr [seq_record [''button_1''] ''a'',
                           seq_record [''button_0'', ''button_1''] ''b'']) initial)
      [Button 0 0, Button 1 (1 / 10)]) = []"
proof -
  have p: "fst (parse_shortcut ''a'' []) = Inr [KeyChar CHR ''a'']"
      "fst (parse_shortcut ''b'' []) = Inr [KeyChar CHR ''b'']"
    by code_simp+
  have i: "injects no_raise [KeyChar CHR ''a'']" "injects no_raise [KeyChar CHR ''b'']"
    by (simp_all add: injects_def no_raise_def)
  have t: "(0::rat) \<le> 1 / 10" "(1 / 10 - 0 :: rat) \<le> SEQUENCE_TIMEOUT"
    by (simp_all add: SEQUENCE_TIMEOUT_def)
  have d: "length_descending
     [\<lparr>sequence = [''button_0'', ''button_1''], action = ''b'', name = []\<rparr>,
      \<lparr>sequence = [''button_1''], action = ''a'', name = []\<rparr>]"
    by (simp add: length_descending_def)
  have c: "fst (check_sequence_match
     [\<lparr>sequence = [''button_0'', ''button_1''], action = ''b'', name = []\<rparr>,
      \<lparr>sequence = [''button_1''], action = ''a'', name = []\<rparr>]
     [(''button_0'', 0), (''button_1'', 1 / 10)])
     = Some \<lparr>sequence = [''button_0'', ''button_1''], action = ''b'', name = []\<rparr>"
    by code_simp
  have m: "tail_matches \<lparr>sequence = [''button_1''], action = ''a'', name = []\<rparr>
     (recent_history [(''button_0'', 0), (''button_1'', 1 / 10)])"
    by (simp add: tail_matches_def recent_history_def)
  have general: "length (sequence \<lparr>sequence = [''button_1''], action = ''a'', name = []\<rparr>)
     \<le> length (sequence \<lparr>sequence = [''button_0'', ''button_1''], action = ''b'', name = []\<rparr>)"
    using longest_match_priority
      [of "[]" initial
          "[\<lparr>sequence = [''button_0'', ''button_1''], action = ''b'', name = []\<rparr>,
            \<lparr>sequence = [''button_1''], action = ''a'', name = []\<rparr>]"
          "[(''button_0'', 0), (''button_1'', 1 / 10)]"
          "\<lparr>sequence = [''button_0'', ''button_1''], action = ''b'', name = []\<rparr>"
          "''a''" "[KeyChar CHR ''a'']" no_raise "''b''" 0 "1 / 10" "[KeyChar CHR ''b'']"]
      d c m
    by simp
  show ?thesis
    using longest_match_priority
      [of "[]" initial
          "[\<lparr>sequence = [''button_0'', ''button_1''], action = ''b'', name = []\<rparr>,
            \<lparr>sequence = [''button_1''], action = ''a'', name = []\<rparr>]"
          "[(''button_0'', 0), (''button_1'', 1 / 10)]"
          "\<lparr>sequence = [''button_0'', ''button_1''], action = ''b'', name = []\<rparr>"
          "''a''" "[KeyChar CHR ''a'']" no_raise "''b''" 0 "1 / 10" "[KeyChar CHR ''b'']"]
      p i t d c m general
    by simp
qed

text \<open>
  C1, as stated, fails at \<^verbatim>\<open>A = a\<close>, \<^verbatim>\<open>B = b\<close> with the events a tenth of a second
  apart: the one execution is that of \<^verbatim>\<open>a\<close>, and the history is not empty.
\<close>

theorem longest_match_scenario_counterexample:
  "executions (run no_raise
      (load_mappings (Inr [seq_record [''button_0''] ''a'',
                           seq_record [''button_0'', ''button_1''] ''b'']) initial)
      [Button 0 0, Button 1 (1 / 10)]) = [''a''] \<and>
   key_history (run no_raise
      (load_mappings (Inr [seq_record [''button_0''] ''a'',
                           seq_record [''button_0'', ''button_1''] ''b'']) initial)
      [Button 0 0, Button 1 (1 / 10)]) = [(''button_1'', 1 / 10)]"
  by code_simp

text \<open>
  C3 does not hold of the code. With the single-key mapping \<^verbatim>\<open>button_2 -> a\<close>, two
  \<^verbatim>\<open>button_2\<close> events a tenth of a second apart leave two started timers, neither
  cancelled: \<^verbatim>\<open>handle_mouse_button\<close> stores the new record and timer in local names, so
  the globals that \<^verbatim>\<open>cancel_pending_single_key\<close> reads stay \<^verbatim>\<open>None\<close>. For the same
  reason both timers fire without executing anything.
\<close>

theorem pending_timers_pile_up:
  "live_timers (run no_raise (load_mappings (Inr [key_record ''button_2'' ''a'']) initial)
      [Button 2 0, Button 2 (1 / 10)]) = [0, 1] \<and>
   pending_single_key (run no_raise (load_mappings (Inr [key_record ''button_2'' ''a'']) initial)
      [Button 2 0, Button 2 (1 / 10)]) = None \<and>
   pending_timer (run no_raise (load_mappings (Inr [key_record ''button_2'' ''a'']) initial)
      [Button 2 0, Button 2 (1 / 10)]) = None \<and>
   executions (run no_raise (load_mappings (Inr [key_record ''button_2'' ''a'']) initial)
      [Button 2 0, Button 2 (1 / 10), TimerFires 0, TimerFires 1]) = []"
  by code_simp

text \<open>
  C2 does not hold of the code. With \<^verbatim>\<open>button_2 -> ctrl+c\<close> and
  \<^verbatim>\<open>[button_2, button_3] -> ctrl+v\<close>, the event \<^verbatim>\<open>button_2\<close> starts a timer, and the
  sequence match at \<^verbatim>\<open>button_3\<close> a fifth of a second later does not cancel it: the timer
  is still live after the match. The one execution is that of \<^verbatim>\<open>ctrl+v\<close>, yet not
  because the pending single key was cancelled: also without \<^verbatim>\<open>button_3\<close> the timer
  fires and executes nothing, since \<^verbatim>\<open>handle_mouse_button\<close> kept the pending record in
  a local name.
\<close>

theorem compose_leaves_timer_running:
  "live_timers (run no_raise
      (load_mappings (Inr [key_record ''button_2'' ''ctrl+c'',
                           seq_record [''button_2'', ''button_3''] ''ctrl+v'']) initial)
      [Button 2 0]) = [0] \<and>
   live_timers (run no_raise
      (load_mappings (Inr [key_record ''button_2'' ''ctrl+c'',
                           seq_record [''button_2'', ''button_3''] ''ctrl+v'']) initial)
      [Button 2 0, Button 3 (1 / 5)]) = [0] \<and>
   executions (run no_raise
      (load_mappings (Inr [key_record ''button_2'' ''ctrl+c'',
                           seq_record [''button_2'', ''button_3''] ''ctrl+v'']) initial)
      [Button 2 0, Button 3 (1 / 5), TimerFires 0]) = [''ctrl+v''] \<and>
   executions (run no_raise
      (load_mappings (Inr [key_record ''button_2'' ''ctrl+c'',
                           seq_record [''button_2'', ''button_3''] ''ctrl+v'']) initial)
      [Button 2 0, TimerFires 0]) = []"
  by code_simp

text \<open>
  C9 does not hold of the code. After a start with \<^verbatim>\<open>button_2 -> ctrl+c\<close> and one
  \<^verbatim>\<open>button_2\<close> event, \<^verbatim>\<open>stop()\<close> empties the history and leaves the listener stopped,
  but the timer started for the pending single key is not cancelled: it is still live
  after the stop. The results of \<^verbatim>\<open>start()\<close> and \<^verbatim>\<open>stop()\<close> themselves are as the
  claim says (\<open>lifecycle_results\<close>).
\<close>

theorem stop_leaves_timer_running:
  "is_listening (run no_raise initial
      [StartListener (Inr [key_record ''button_2'' ''ctrl+c'']), Button 2 0]) \<and>
   live_timers (run no_raise initial
      [StartListener (Inr [key_record ''button_2'' ''ctrl+c'']), Button 2 0]) = [0] \<and>
   \<not> is_listening (run no_raise initial
      [StartListener (Inr [key_record ''button_2'' ''ctrl+c'']), Button 2 0, StopListener]) \<and>
   key_history (run no_raise initial
      [StartListener (Inr [key_record ''button_2'' ''ctrl+c'']), Button 2 0, StopListener]) = [] \<and>
   live_timers (run no_raise initial
      [StartListener (Inr [key_record ''button_2'' ''ctrl+c'']), Button 2 0, StopListener]) = [0]"
  by code_simp

end
